theory Spec2Isabelle
  imports Main "HOL-Library.AList" "HOL-Library.Multiset"
begin

section \<open>Strings\<close>

text \<open>
  A Python \<open>str\<close> is modelled as a \<open>string\<close>: a list of characters, each standing for
  the code point of the same number (0 to 255). \<open>bytes\<close> values are modelled by the
  same type. The helpers below follow the Python built-ins the program calls. Text with
  code points above 255 is outside the model; where the library treats text outside ASCII
  in a way of its own (the checks of \<open>urlsplit\<close> on the network location) the outcome is a
  parameter, and what is proved of all URLs is stated for ASCII.
\<close>

text \<open>\<open>str.isspace\<close> on one character, which is also what \<open>\s\<close> matches in a pattern
  for \<open>str\<close>: the code points 9 to 13, 28 to 32, 133 and 160.\<close>

definition isspace :: "char \<Rightarrow> bool" where
  "isspace c = (let n = (of_char c :: nat) in
     (9 \<le> n \<and> n \<le> 13) \<or> (28 \<le> n \<and> n \<le> 32) \<or> n = 133 \<or> n = 160)"

text \<open>\<open>str.lower\<close>: the letters A to Z, and the upper-case letters 192 to 222 of the
  upper half (215 is the multiplication sign), move up by 32.\<close>

definition lower_char :: "char \<Rightarrow> char" where
  "lower_char c = (let n = (of_char c :: nat) in
     if (65 \<le> n \<and> n \<le> 90) \<or> (192 \<le> n \<and> n \<le> 222 \<and> n \<noteq> 215)
     then char_of (n + 32) else c)"

definition lower :: "string \<Rightarrow> string" where
  "lower s = map lower_char s"

text \<open>\<open>str.strip()\<close> removes white space at both ends.\<close>

definition strip :: "string \<Rightarrow> string" where
  "strip s = rev (dropWhile isspace (rev (dropWhile isspace s)))"

text \<open>\<open>s.startswith(p)\<close> and \<open>s.endswith(p)\<close>.\<close>

fun startswith :: "string \<Rightarrow> string \<Rightarrow> bool" where
  "startswith s [] = True"
| "startswith [] (p # ps) = False"
| "startswith (c # cs) (p # ps) = (c = p \<and> startswith cs ps)"

definition endswith :: "string \<Rightarrow> string \<Rightarrow> bool" where
  "endswith s p = startswith (rev s) (rev p)"

text \<open>The rest of \<open>s\<close> after the literal \<open>p\<close>, when \<open>s\<close> starts with it.\<close>

fun after_prefix :: "string \<Rightarrow> string \<Rightarrow> string option" where
  "after_prefix [] s = Some s"
| "after_prefix (p # ps) [] = None"
| "after_prefix (p # ps) (c # cs) = (if p = c then after_prefix ps cs else None)"

text \<open>The decimal digits of a natural number, and \<open>f"{index:03}"\<close>: the digits padded
  with zeros on the left to a width of three.\<close>

fun digits :: "nat \<Rightarrow> string" where
  "digits n = (if n < 10 then [char_of (48 + n)] else digits (n div 10) @ [char_of (48 + n mod 10)])"

definition pad3 :: "nat \<Rightarrow> string" where
  "pad3 n = replicate (3 - length (digits n)) (CHR ''0'') @ digits n"

section \<open>Exceptions\<close>

text \<open>
  An exception is its class and its message; \<open>str(exc)\<close> is the message. The program's
  own messages are in Russian; they are given here by English renderings.
\<close>

datatype exn =
    ValueError string
  | TypeError string
  | RuntimeError string
  | OSError string
  | OverflowError string
  | KeyError string
  | RequestException string
  | UnidentifiedImageError string

fun str_exn :: "exn \<Rightarrow> string" where
  "str_exn (ValueError m) = m"
| "str_exn (TypeError m) = m"
| "str_exn (RuntimeError m) = m"
| "str_exn (OSError m) = m"
| "str_exn (OverflowError m) = m"
| "str_exn (KeyError m) = m"
| "str_exn (RequestException m) = m"
| "str_exn (UnidentifiedImageError m) = m"

definition msg_pdf_only_needs_pdf :: string where
  "msg_pdf_only_needs_pdf = ''PDF-only mode requires PDF assembly to be enabled.''"

definition msg_pages_not_found :: string where
  "msg_pages_not_found = ''Page array not found. The site format has probably changed.''"

definition msg_no_links :: string where
  "msg_no_links = ''Could not extract the image links.''"

definition msg_no_pages :: string where
  "msg_no_pages = ''No images to assemble the PDF.''"

definition msg_no_downloaded :: string where
  "msg_no_downloaded = ''No downloaded images to assemble the PDF.''"

definition msg_pillow :: string where
  "msg_pillow = ''Pillow is needed to assemble the PDF. Install the dependencies: pip install -r requirements.txt''"

definition msg_unreadable_file :: "string \<Rightarrow> string" where
  "msg_unreadable_file image_path = ''Could not read the image: '' @ image_path"

definition msg_unreadable_page :: "nat \<Rightarrow> string" where
  "msg_unreadable_page page_index = ''Could not read the image of page #'' @ pad3 page_index"

section \<open>The extractor\<close>

text \<open>
  \<open>download_manga\<close> finds the page array with two regular expressions. The first,
  \<^verbatim>\<open>rm_h\.readerInit\([^,]+,\s*(\[\[.*?\]\])\<close> with the flag \<open>re.S\<close>, is searched for; its
  group is the text from the two opening brackets to the first two closing ones.

  At one start position the match is forced: after the literal, \<open>[^,]+\<close> has to stop
  at the first comma (a shorter run would leave a character that is not a comma in front
  of the comma of the pattern), \<open>\s*\<close> has to take the whole run of white space (a shorter
  one would leave white space in front of the bracket), and the lazy \<open>.*?\<close> stops at the
  first pair of closing brackets.
\<close>

text \<open>\<^verbatim>\<open>.*?\]\]\<close>: the text up to and including the first \<open>]]\<close>.\<close>

fun lazy_to_close :: "string \<Rightarrow> string option" where
  "lazy_to_close [] = None"
| "lazy_to_close (c # cs) =
     (if startswith (c # cs) '']]'' then Some '']]''
      else map_option ((#) c) (lazy_to_close cs))"

definition match_reader_at :: "string \<Rightarrow> string option" where
  "match_reader_at s =
     (case after_prefix ''rm_h.readerInit('' s of
        None \<Rightarrow> None
      | Some r \<Rightarrow>
          if takeWhile (\<lambda>c. c \<noteq> CHR '','') r = [] then None
          else
           (case after_prefix '','' (dropWhile (\<lambda>c. c \<noteq> CHR '','') r) of
              None \<Rightarrow> None
            | Some r2 \<Rightarrow>
               (case after_prefix ''[['' (dropWhile isspace r2) of
                  None \<Rightarrow> None
                | Some r3 \<Rightarrow> map_option ((@) ''[['') (lazy_to_close r3))))"

text \<open>\<open>re.search\<close>: the match at the leftmost start position that has one; the result
  is \<open>match.group(1)\<close>.\<close>

fun re_search_reader :: "string \<Rightarrow> string option" where
  "re_search_reader [] = None"
| "re_search_reader (c # cs) =
     (case match_reader_at (c # cs) of
        Some g \<Rightarrow> Some g
      | None \<Rightarrow> re_search_reader cs)"

text \<open>
  The second expression, \<^verbatim>\<open>\['(https?://[^']+)','',\"([^\"]+)\"\<close>, has two groups: the
  base between single quotes and the path between double quotes. Again the match at one
  start position is forced: each negated class runs up to the quote that ends it. The
  result is the two groups and the number of characters matched.
\<close>

definition sq :: char where
  "sq = CHR 0x27"

definition dq :: char where
  "dq = CHR 0x22"

definition match_scheme :: "string \<Rightarrow> (string \<times> string) option" where
  "match_scheme r =
     (case after_prefix ''https://'' r of
        Some r' \<Rightarrow> Some (''https://'', r')
      | None \<Rightarrow>
         (case after_prefix ''http://'' r of
            Some r' \<Rightarrow> Some (''http://'', r')
          | None \<Rightarrow> None))"

definition match_image_at :: "string \<Rightarrow> ((string \<times> string) \<times> nat) option" where
  "match_image_at s =
     (case after_prefix [CHR ''['', sq] s of
        None \<Rightarrow> None
      | Some r \<Rightarrow>
         (case match_scheme r of
            None \<Rightarrow> None
          | Some (scheme, r1) \<Rightarrow>
              let host = takeWhile (\<lambda>c. c \<noteq> sq) r1 in
              if host = [] then None
              else
               (case after_prefix [sq, CHR '','', sq, sq, CHR '','', dq]
                       (dropWhile (\<lambda>c. c \<noteq> sq) r1) of
                  None \<Rightarrow> None
                | Some r2 \<Rightarrow>
                    let path = takeWhile (\<lambda>c. c \<noteq> dq) r2 in
                    if path = [] then None
                    else
                     (case after_prefix [dq] (dropWhile (\<lambda>c. c \<noteq> dq) r2) of
                        None \<Rightarrow> None
                      | Some r3 \<Rightarrow>
                          Some ((scheme @ host, path),
                                2 + length scheme + length host + 6 + length path + 1)))))"

text \<open>\<open>re.findall\<close>: scan from the left; after a match the scan goes on behind it (the
  first argument counts the characters of the last match still to be passed over), after
  a failure one character further.\<close>

fun findall_from :: "nat \<Rightarrow> string \<Rightarrow> (string \<times> string) list" where
  "findall_from k [] = []"
| "findall_from (Suc k) (c # cs) = findall_from k cs"
| "findall_from 0 (c # cs) =
     (case match_image_at (c # cs) of
        Some (g, n) \<Rightarrow> g # findall_from (n - 1) cs
      | None \<Rightarrow> findall_from 0 cs)"

definition re_findall_images :: "string \<Rightarrow> (string \<times> string) list" where
  "re_findall_images data = findall_from 0 data"

text \<open>The same scan, keeping the position at which each match starts (what
  \<open>re.finditer\<close> gives); the first argument is the position of the head of the rest.\<close>

fun finditer_from :: "nat \<Rightarrow> nat \<Rightarrow> string \<Rightarrow> (nat \<times> string \<times> string) list" where
  "finditer_from pos k [] = []"
| "finditer_from pos (Suc k) (c # cs) = finditer_from (Suc pos) k cs"
| "finditer_from pos 0 (c # cs) =
     (case match_image_at (c # cs) of
        Some (g, n) \<Rightarrow> (pos, g) # finditer_from (Suc pos) (n - 1) cs
      | None \<Rightarrow> finditer_from (Suc pos) 0 cs)"

text \<open>The text of an entry of the page array with the given base and path, up to the
  end of the path: the part that the second expression matches.\<close>

definition entry_text :: "string \<Rightarrow> string \<Rightarrow> string" where
  "entry_text base path =
     [CHR ''['', sq] @ base @ [sq, CHR '','', sq, sq, CHR '','', dq] @ path @ [dq]"

text \<open>A base that the first group matches, and a path that the second group matches.\<close>

definition valid_base :: "string \<Rightarrow> bool" where
  "valid_base base =
     (\<exists>rest. rest \<noteq> [] \<and> sq \<notin> set rest
             \<and> (base = ''http://'' @ rest \<or> base = ''https://'' @ rest))"

definition valid_path :: "string \<Rightarrow> bool" where
  "valid_path path = (path \<noteq> [] \<and> dq \<notin> set path)"

text \<open>A page array body: entries, each followed by text without an opening bracket (the
  other fields of the entry, the closing bracket and the comma).\<close>

definition valid_entry :: "string \<times> string \<times> string \<Rightarrow> bool" where
  "valid_entry e =
     (case e of (base, path, filler) \<Rightarrow>
        valid_base base \<and> valid_path path \<and> CHR ''['' \<notin> set filler)"

fun entries_text :: "(string \<times> string \<times> string) list \<Rightarrow> string" where
  "entries_text [] = []"
| "entries_text ((base, path, filler) # rest) = entry_text base path @ filler @ entries_text rest"

text \<open>\<open>p in s\<close>: the text \<open>p\<close> occurs in \<open>s\<close>.\<close>

fun occurs :: "string \<Rightarrow> string \<Rightarrow> bool" where
  "occurs p [] = (p = [])"
| "occurs p (c # cs) = (startswith (c # cs) p \<or> occurs p cs)"

text \<open>Lines 142 to 150 of \<open>download_manga\<close>: the list \<open>images\<close> of (base, path) pairs, or
  the \<open>ValueError\<close> raised when the array or its entries are not found.\<close>

definition extract_images :: "string \<Rightarrow> exn + (string \<times> string) list" where
  "extract_images html =
     (case re_search_reader html of
        None \<Rightarrow> Inl (ValueError msg_pages_not_found)
      | Some data \<Rightarrow>
          let images = re_findall_images data in
          if images = [] then Inl (ValueError msg_no_links) else Inr images)"

text \<open>\<open>enumerate(images, 1)\<close>: the descriptors (index, (base, path)) that are submitted
  to the pool.\<close>

definition descriptors :: "(string \<times> string) list \<Rightarrow> (nat \<times> string \<times> string) list" where
  "descriptors images = List.enumerate 1 images"

section \<open>Library functions on URLs and paths\<close>

text \<open>
  \<open>_detect_extension\<close> calls \<open>urllib.parse.urlparse\<close> and \<open>os.path.splitext\<close>. Both are
  modelled after the CPython library, on POSIX paths.

  \<open>urlsplit\<close> drops leading control characters and spaces, removes tabs and line breaks,
  splits off a scheme, and splits off the network location after \<open>//\<close>. It raises
  \<open>ValueError\<close> in three places: when the network location has one square bracket without
  the other; when the host between two brackets is not accepted; and when a network
  location with a character outside ASCII contains, after NFKC normalisation, one of the
  characters that delimit the parts of a URL. What the last two checks accept depends on
  the library version and on the Unicode data (in the library the second looks at code
  points that the strings here do not have); they are one parameter here, \<open>netloc_ok\<close>,
  which is asked about every network location that has a bracket or a character outside
  ASCII. A network location in ASCII without brackets passes all three checks.
\<close>

definition non_ascii :: "char \<Rightarrow> bool" where
  "non_ascii c = (127 < (of_char c :: nat))"

definition scheme_chars :: string where
  "scheme_chars = ''abcdefghijklmnopqrstuvwxyzABCDEFGHIJKLMNOPQRSTUVWXYZ0123456789+-.''"

definition uses_params :: "string list" where
  "uses_params = ['''', ''ftp'', ''hdl'', ''prospero'', ''http'', ''imap'', ''https'', ''shttp'',
     ''rtsp'', ''rtspu'', ''sip'', ''sips'', ''mms'', ''sftp'', ''tel'']"

definition ascii_alpha :: "char \<Rightarrow> bool" where
  "ascii_alpha c = (let n = (of_char c :: nat) in (65 \<le> n \<and> n \<le> 90) \<or> (97 \<le> n \<and> n \<le> 122))"

text \<open>The scheme and the rest: a scheme is split off when the text before the first colon
  is not empty, starts with an ASCII letter and has scheme characters only.\<close>

definition split_scheme :: "string \<Rightarrow> string \<times> string" where
  "split_scheme url =
     (let pre = takeWhile (\<lambda>c. c \<noteq> CHR '':'') url in
      if CHR '':'' \<in> set url \<and> pre \<noteq> [] \<and> list_all ascii_alpha (take 1 pre)
         \<and> list_all (\<lambda>c. c \<in> set scheme_chars) pre
      then (lower pre, drop (Suc (length pre)) url)
      else ('''', url))"

definition netloc_delim :: "char \<Rightarrow> bool" where
  "netloc_delim c = (c = CHR ''/'' \<or> c = CHR ''?'' \<or> c = CHR ''#'')"

text \<open>The path of \<open>urlsplit\<close>: what is left after the fragment and the query are cut off.\<close>

definition cut_query_fragment :: "string \<Rightarrow> string" where
  "cut_query_fragment url =
     takeWhile (\<lambda>c. c \<noteq> CHR ''?'') (takeWhile (\<lambda>c. c \<noteq> CHR ''#'') url)"

definition urlsplit :: "(string \<Rightarrow> bool) \<Rightarrow> string \<Rightarrow> exn + (string \<times> string \<times> string)" where
  "urlsplit netloc_ok url =
     (let url1 = filter (\<lambda>c. c \<noteq> CHR 0x09 \<and> c \<noteq> CHR 0x0D \<and> c \<noteq> CHR 0x0A)
                   (dropWhile (\<lambda>c. (of_char c :: nat) \<le> 32) url);
          scheme = fst (split_scheme url1);
          url2 = snd (split_scheme url1)
      in if startswith url2 ''//''
         then
           (let netloc = takeWhile (\<lambda>c. \<not> netloc_delim c) (drop 2 url2);
                rest = dropWhile (\<lambda>c. \<not> netloc_delim c) (drop 2 url2)
            in if (CHR ''['' \<in> set netloc) \<noteq> (CHR '']'' \<in> set netloc)
               then Inl (ValueError ''Invalid IPv6 URL'')
               else if (CHR ''['' \<in> set netloc \<or> list_ex non_ascii netloc)
                       \<and> \<not> netloc_ok netloc
               then Inl (ValueError ''Invalid network location'')
               else Inr (scheme, netloc, cut_query_fragment rest))
         else Inr (scheme, '''', cut_query_fragment url2))"

text \<open>\<open>_splitparams\<close>: the parameters start at the first semicolon of the last segment.\<close>

definition splitparams :: "string \<Rightarrow> string" where
  "splitparams url =
     (if CHR ''/'' \<in> set url
      then
        (let last_segment = rev (takeWhile (\<lambda>c. c \<noteq> CHR ''/'') (rev url))
         in take (length url - length last_segment) url
              @ takeWhile (\<lambda>c. c \<noteq> CHR '';'') last_segment)
      else takeWhile (\<lambda>c. c \<noteq> CHR '';'') url)"

text \<open>\<open>urlparse(url).path\<close>.\<close>

definition urlparse_path :: "(string \<Rightarrow> bool) \<Rightarrow> string \<Rightarrow> exn + string" where
  "urlparse_path netloc_ok url =
     (case urlsplit netloc_ok url of
        Inl e \<Rightarrow> Inl e
      | Inr (scheme, netloc, p) \<Rightarrow>
          Inr (if scheme \<in> set uses_params \<and> CHR '';'' \<in> set p then splitparams p else p))"

text \<open>\<open>s.rfind(c)\<close>: the highest index of \<open>c\<close>, or -1.\<close>

fun rfind :: "string \<Rightarrow> char \<Rightarrow> int" where
  "rfind [] c = -1"
| "rfind (x # xs) c =
     (if rfind xs c \<ge> 0 then rfind xs c + 1 else if x = c then 0 else -1)"

text \<open>\<open>os.path.splitext(p)[1]\<close>: the extension starts at the last dot, when that dot is
  behind the last slash and some character between the two is not a dot.\<close>

definition splitext_ext :: "string \<Rightarrow> string" where
  "splitext_ext p =
     (let sepIndex = rfind p (CHR ''/'');
          dotIndex = rfind p (CHR ''.'')
      in if dotIndex > sepIndex
            \<and> list_ex (\<lambda>c. c \<noteq> CHR ''.'')
                 (take (nat (dotIndex - (sepIndex + 1))) (drop (nat (sepIndex + 1)) p))
         then drop (nat dotIndex) p
         else [])"

text \<open>\<open>os.path.join(a, b)\<close> and \<open>os.path.basename(p)\<close>.\<close>

definition path_join :: "string \<Rightarrow> string \<Rightarrow> string" where
  "path_join a b =
     (if startswith b ''/'' then b
      else if a = [] \<or> endswith a ''/'' then a @ b
      else a @ ''/'' @ b)"

definition basename :: "string \<Rightarrow> string" where
  "basename p = rev (takeWhile (\<lambda>c. c \<noteq> CHR ''/'') (rev p))"

section \<open>The format classifier\<close>

definition ALLOWED_EXTENSIONS :: "string list" where
  "ALLOWED_EXTENSIONS = [''.jpg'', ''.jpeg'', ''.png'', ''.webp'', ''.wepb'']"

definition CONTENT_TYPE_TO_EXTENSION :: "(string \<times> string) list" where
  "CONTENT_TYPE_TO_EXTENSION =
     [(''image/jpeg'', ''.jpg''), (''image/jpg'', ''.jpg''),
      (''image/png'', ''.png''), (''image/webp'', ''.webp'')]"

definition DEFAULT_PDF_NAME :: string where
  "DEFAULT_PDF_NAME = ''chapter.pdf''"

definition DEFAULT_DOWNLOAD_WORKERS :: int where
  "DEFAULT_DOWNLOAD_WORKERS = 8"

definition MAX_DOWNLOAD_WORKERS :: int where
  "MAX_DOWNLOAD_WORKERS = 16"

definition build_image_url :: "string \<Rightarrow> string \<Rightarrow> string" where
  "build_image_url base path =
     (if startswith path ''http://'' \<or> startswith path ''https://'' then path
      else base @ path)"

definition detect_extension :: "(string \<Rightarrow> bool) \<Rightarrow> string \<Rightarrow> string \<Rightarrow> exn + string" where
  "detect_extension netloc_ok img_url content_type =
     (case urlparse_path netloc_ok img_url of
        Inl e \<Rightarrow> Inl e
      | Inr p \<Rightarrow>
          let ext = lower (splitext_ext p) in
          if ext \<in> set ALLOWED_EXTENSIONS
          then (if ext = ''.jpeg'' then Inr ''.jpg''
                else if ext = ''.wepb'' then Inr ''.webp''
                else Inr ext)
          else
            (let mime = lower (strip (takeWhile (\<lambda>c. c \<noteq> CHR '';'') content_type)) in
             Inr (case map_of CONTENT_TYPE_TO_EXTENSION mime of
                    Some e \<Rightarrow> e
                  | None \<Rightarrow> ''.jpg'')))"

section \<open>The world outside the program\<close>

text \<open>
  The file system is a list of directories and an association list from file names to
  contents. Every input and output call is written to \<open>trace\<close>, with \<open>True\<close> when it
  returned and \<open>False\<close> when it raised. The messages passed to \<open>progress_callback\<close> are
  collected in \<open>messages\<close>.
\<close>

datatype io_event =
    MakeDirs string bool
  | HttpGet string bool
  | WriteFile string bool
  | ReadFile string bool
  | SavePdf string bool

datatype progress_msg =
    ParallelDownload int nat
  | PageFailed nat nat nat
  | PageReceived nat nat nat
  | PageSaved nat nat string
  | AssemblingPdf
  | PdfAddFile nat nat string
  | PdfAddPage nat nat nat

record world =
  files :: "(string \<times> string) list"
  dirs :: "string list"
  trace :: "io_event list"
  messages :: "progress_msg list"

record response =
  status_code :: nat
  body :: string
  content_type_header :: "string option"

text \<open>A decoded image, as far as \<open>_prepare_for_pdf\<close> looks at it, and a page of the
  document: the image put on a white background, or converted to RGB as it is.\<close>

record image =
  mode :: string
  transparency :: bool
  pixels :: string

datatype page = OverWhite image | AsRGB image

text \<open>
  What the program cannot decide is a parameter: whether a directory can be made and a
  file written, what the server answers (to the request for the chapter page, and to the
  request of the fetch unit with a given index), whether Pillow can be imported, what
  an image decodes to, how a document is written out, and how long each fetch unit runs.
\<close>

record env =
  makedirs_error :: "string \<Rightarrow> exn option"
  get_page :: "string \<Rightarrow> exn + response"
  get_image :: "nat \<Rightarrow> string \<Rightarrow> exn + response"
  write_error :: "string \<Rightarrow> exn option"
  pillow_installed :: bool
  image_open :: "string \<Rightarrow> exn + image"
  pdf_bytes :: "page list \<Rightarrow> string"
  save_error :: "string \<Rightarrow> exn option"
  netloc_ok :: "string \<Rightarrow> bool"
  duration :: "nat \<Rightarrow> nat"

definition log_io :: "io_event \<Rightarrow> world \<Rightarrow> world" where
  "log_io ev w = w\<lparr>trace := trace w @ [ev]\<rparr>"

text \<open>\<open>if progress_callback: progress_callback(msg)\<close>.\<close>

definition notify :: "bool \<Rightarrow> progress_msg \<Rightarrow> world \<Rightarrow> world" where
  "notify progress_callback msg w =
     (if progress_callback then w\<lparr>messages := messages w @ [msg]\<rparr> else w)"

text \<open>\<open>os.makedirs(output_dir, exist_ok=True)\<close>.\<close>

definition makedirs :: "env \<Rightarrow> string \<Rightarrow> world \<Rightarrow> (exn + unit) \<times> world" where
  "makedirs E output_dir w =
     (case makedirs_error E output_dir of
        Some e \<Rightarrow> (Inl e, log_io (MakeDirs output_dir False) w)
      | None \<Rightarrow>
          (Inr (), log_io (MakeDirs output_dir True) (w\<lparr>dirs := List.insert output_dir (dirs w)\<rparr>)))"

text \<open>\<open>response.raise_for_status()\<close> raises on the status codes 400 to 599.\<close>

definition raise_for_status :: "response \<Rightarrow> exn option" where
  "raise_for_status r =
     (if 400 \<le> status_code r \<and> status_code r < 600
      then Some (RequestException (''HTTP error '' @ digits (status_code r)))
      else None)"

section \<open>The document assembler\<close>

definition prepare_for_pdf :: "image \<Rightarrow> page" where
  "prepare_for_pdf img =
     (if mode img = ''RGBA'' \<or> mode img = ''LA'' \<or> (mode img = ''P'' \<and> transparency img)
      then OverWhite img
      else AsRGB img)"

text \<open>\<open>_save_pdf_pages\<close>: no page raises before anything is written; otherwise the first
  page is saved with the others appended. Closing the pages in the \<open>finally\<close> blocks of
  the callers changes nothing that the world records.\<close>

definition save_pdf_pages :: "env \<Rightarrow> page list \<Rightarrow> string \<Rightarrow> world \<Rightarrow> (exn + unit) \<times> world" where
  "save_pdf_pages E pages pdf_path w =
     (case pages of
        [] \<Rightarrow> (Inl (ValueError msg_no_pages), w)
      | first_page # other_pages \<Rightarrow>
         (case save_error E pdf_path of
            Some e \<Rightarrow> (Inl e, log_io (SavePdf pdf_path False) w)
          | None \<Rightarrow>
              (Inr (),
               log_io (SavePdf pdf_path True)
                 (w\<lparr>files := AList.update pdf_path (pdf_bytes E (first_page # other_pages))
                                (files w)\<rparr>))))"

fun is_UnidentifiedImageError :: "exn \<Rightarrow> bool" where
  "is_UnidentifiedImageError (UnidentifiedImageError m) = True"
| "is_UnidentifiedImageError e = False"

text \<open>\<open>image_cls.open(image_path)\<close> reads the file and decodes it.\<close>

definition open_image_file :: "env \<Rightarrow> string \<Rightarrow> world \<Rightarrow> (exn + image) \<times> world" where
  "open_image_file E image_path w =
     (case map_of (files w) image_path of
        None \<Rightarrow> (Inl (OSError (''No such file: '' @ image_path)), log_io (ReadFile image_path False) w)
      | Some content \<Rightarrow> (image_open E content, log_io (ReadFile image_path True) w))"

text \<open>The loop of \<open>create_pdf_from_images\<close> over \<open>enumerate(image_paths, 1)\<close>.\<close>

fun load_image_files ::
  "env \<Rightarrow> bool \<Rightarrow> nat \<Rightarrow> (nat \<times> string) list \<Rightarrow> page list \<Rightarrow> world \<Rightarrow> (exn + page list) \<times> world"
where
  "load_image_files E progress_callback total_n [] pages w = (Inr pages, w)"
| "load_image_files E progress_callback total_n ((index, image_path) # rest) pages w =
     (let w1 = notify progress_callback (PdfAddFile index total_n (basename image_path)) w
      in case open_image_file E image_path w1 of
           (Inl exc, w2) \<Rightarrow>
             (if is_UnidentifiedImageError exc
              then (Inl (ValueError (msg_unreadable_file image_path)), w2)
              else (Inl exc, w2))
         | (Inr img, w2) \<Rightarrow>
             load_image_files E progress_callback total_n rest (pages @ [prepare_for_pdf img]) w2)"

definition create_pdf_from_images ::
  "env \<Rightarrow> string list \<Rightarrow> string \<Rightarrow> bool \<Rightarrow> world \<Rightarrow> (exn + unit) \<times> world"
where
  "create_pdf_from_images E image_paths pdf_path progress_callback w =
     (if \<not> pillow_installed E then (Inl (RuntimeError msg_pillow), w)
      else
       (case load_image_files E progress_callback (length image_paths)
               (List.enumerate 1 image_paths) [] w of
          (Inl exc, w1) \<Rightarrow> (Inl exc, w1)
        | (Inr pages, w1) \<Rightarrow> save_pdf_pages E pages pdf_path w1))"

text \<open>The loop of \<open>create_pdf_from_page_bytes\<close> over \<open>enumerate(pages_by_index, 1)\<close>.\<close>

fun load_page_bytes ::
  "env \<Rightarrow> bool \<Rightarrow> nat \<Rightarrow> (nat \<times> nat \<times> string) list \<Rightarrow> page list \<Rightarrow> world \<Rightarrow> (exn + page list) \<times> world"
where
  "load_page_bytes E progress_callback total_n [] pages w = (Inr pages, w)"
| "load_page_bytes E progress_callback total_n ((position, page_index, image_bytes) # rest) pages w =
     (let w1 = notify progress_callback (PdfAddPage position total_n page_index) w
      in case image_open E image_bytes of
           Inl exc \<Rightarrow>
             (if is_UnidentifiedImageError exc
              then (Inl (ValueError (msg_unreadable_page page_index)), w1)
              else (Inl exc, w1))
         | Inr img \<Rightarrow>
             load_page_bytes E progress_callback total_n rest (pages @ [prepare_for_pdf img]) w1)"

definition create_pdf_from_page_bytes ::
  "env \<Rightarrow> (nat \<times> string) list \<Rightarrow> string \<Rightarrow> bool \<Rightarrow> world \<Rightarrow> (exn + unit) \<times> world"
where
  "create_pdf_from_page_bytes E pages_by_index pdf_path progress_callback w =
     (if \<not> pillow_installed E then (Inl (RuntimeError msg_pillow), w)
      else
       (case load_page_bytes E progress_callback (length pages_by_index)
               (List.enumerate 1 pages_by_index) [] w of
          (Inl exc, w1) \<Rightarrow> (Inl exc, w1)
        | (Inr pages, w1) \<Rightarrow> save_pdf_pages E pages pdf_path w1))"

section \<open>The fetcher pool\<close>

text \<open>
  \<open>_download_one\<close> returns a tuple of one of three shapes: (index, None, None, error),
  (index, None, content, None) in PDF-only mode, and (index, filename, None, None)
  otherwise. The three shapes are the three constructors of \<open>fetch_result\<close>. The error
  text is never empty, so \<open>if error:\<close> in the collecting loop tests for the first shape.
\<close>

datatype fetch_result =
    Failure nat string
  | PageBytes nat string
  | PageFile nat string

definition failure_text :: "string \<Rightarrow> exn \<Rightarrow> string" where
  "failure_text img_url exc = img_url @ '' ('' @ str_exn exc @ '')''"

definition download_one ::
  "env \<Rightarrow> string \<Rightarrow> bool \<Rightarrow> nat \<times> string \<times> string \<Rightarrow> world \<Rightarrow> fetch_result \<times> world"
where
  "download_one E output_dir pdf_only task w =
     (case task of (index, base, path) \<Rightarrow>
        let img_url = build_image_url base path in
        case get_image E index img_url of
          Inl exc \<Rightarrow>
            (Failure index (failure_text img_url exc), log_io (HttpGet img_url False) w)
        | Inr img_response \<Rightarrow>
            let w1 = log_io (HttpGet img_url True) w in
            case raise_for_status img_response of
              Some exc \<Rightarrow> (Failure index (failure_text img_url exc), w1)
            | None \<Rightarrow>
                if pdf_only then (PageBytes index (body img_response), w1)
                else
                 (case detect_extension (netloc_ok E) img_url
                         (case content_type_header img_response of
                            Some c \<Rightarrow> c
                          | None \<Rightarrow> '''') of
                    Inl exc \<Rightarrow> (Failure index (failure_text img_url exc), w1)
                  | Inr extension \<Rightarrow>
                      let filename = path_join output_dir (pad3 index @ extension) in
                      case write_error E filename of
                        Some exc \<Rightarrow>
                          (Failure index (failure_text img_url exc),
                           log_io (WriteFile filename False) w1)
                      | None \<Rightarrow>
                          (PageFile index filename,
                           log_io (WriteFile filename True)
                             (w1\<lparr>files := AList.update filename (body img_response)
                                             (files w1)\<rparr>))))"

text \<open>
  \<open>ThreadPoolExecutor\<close>: the units are taken from the queue in the order of submission,
  each by the worker that is free first. \<open>pool_finish\<close> gives every unit the time at which
  it is done, from the times at which the workers are free (in ascending order) and the
  running time of each unit. \<open>as_completed\<close> yields the units by that time. A pool without
  a worker is refused by the constructor, see \<open>fetch_phase\<close>.
\<close>

fun pool_finish :: "(nat \<Rightarrow> nat) \<Rightarrow> nat list \<Rightarrow> (nat \<times> 'a) list \<Rightarrow> (nat \<times> nat \<times> 'a) list" where
  "pool_finish dur free [] = []"
| "pool_finish dur [] (t # ts) = []"
| "pool_finish dur (f # free) ((index, x) # ts) =
     (f + dur index, index, x) # pool_finish dur (insort (f + dur index) free) ts"

definition as_completed :: "(nat \<Rightarrow> nat) \<Rightarrow> nat \<Rightarrow> (nat \<times> 'a) list \<Rightarrow> (nat \<times> 'a) list" where
  "as_completed dur workers tasks =
     map snd (sort_key fst (pool_finish dur (replicate workers 0) tasks))"

text \<open>The loop over \<open>as_completed(futures)\<close>. Each unit runs to its end when it is its
  turn to complete: the units share no state but the output directory, where each writes
  a file of its own.\<close>

fun collect ::
  "env \<Rightarrow> string \<Rightarrow> bool \<Rightarrow> bool \<Rightarrow> nat \<Rightarrow> (nat \<times> string \<times> string) list
   \<Rightarrow> string list \<times> (nat \<times> string) list \<times> (nat \<times> string) list \<times> nat \<Rightarrow> world
   \<Rightarrow> (string list \<times> (nat \<times> string) list \<times> (nat \<times> string) list \<times> nat) \<times> world"
where
  "collect E output_dir pdf_only progress_callback total_n [] acc w = (acc, w)"
| "collect E output_dir pdf_only progress_callback total_n (task # rest)
     (failed, saved_by_index, page_bytes_by_index, done_count) w =
     (case download_one E output_dir pdf_only task w of
        (Failure index error, w1) \<Rightarrow>
          collect E output_dir pdf_only progress_callback total_n rest
            (failed @ [error], saved_by_index, page_bytes_by_index, done_count + 1)
            (notify progress_callback (PageFailed (done_count + 1) total_n index) w1)
      | (PageBytes index image_content, w1) \<Rightarrow>
          collect E output_dir pdf_only progress_callback total_n rest
            (failed, saved_by_index, AList.update index image_content page_bytes_by_index,
             done_count + 1)
            (notify progress_callback (PageReceived (done_count + 1) total_n index) w1)
      | (PageFile index filename, w1) \<Rightarrow>
          collect E output_dir pdf_only progress_callback total_n rest
            (failed, AList.update index filename saved_by_index, page_bytes_by_index,
             done_count + 1)
            (notify progress_callback (PageSaved (done_count + 1) total_n (basename filename)) w1))"

text \<open>
  The argument \<open>max_workers\<close>, as \<open>int(max_workers)\<close> sees it: a value that converts to an
  integer, or a value on which the conversion raises.
\<close>

datatype workers_arg = IntValue int | Unconvertible exn

fun is_TypeError_or_ValueError :: "exn \<Rightarrow> bool" where
  "is_TypeError_or_ValueError (TypeError m) = True"
| "is_TypeError_or_ValueError (ValueError m) = True"
| "is_TypeError_or_ValueError e = False"

definition workers_input_of :: "workers_arg \<Rightarrow> exn + int" where
  "workers_input_of max_workers =
     (case max_workers of
        IntValue n \<Rightarrow> Inr n
      | Unconvertible exc \<Rightarrow>
          if is_TypeError_or_ValueError exc then Inr DEFAULT_DOWNLOAD_WORKERS else Inl exc)"

definition effective_workers_of :: "int \<Rightarrow> nat \<Rightarrow> int" where
  "effective_workers_of workers_input total_n =
     max 1 (min workers_input (min MAX_DOWNLOAD_WORKERS (int total_n)))"

text \<open>\<open>[d[idx] for idx in keys]\<close>, with the \<open>KeyError\<close> of a missing key.\<close>

fun lookup_all :: "(nat \<times> 'v) list \<Rightarrow> nat list \<Rightarrow> exn + 'v list" where
  "lookup_all d [] = Inr []"
| "lookup_all d (idx # rest) =
     (case map_of d idx of
        None \<Rightarrow> Inl (KeyError (digits idx))
      | Some v \<Rightarrow>
         (case lookup_all d rest of
            Inl exc \<Rightarrow> Inl exc
          | Inr vs \<Rightarrow> Inr (v # vs)))"

text \<open>Lines 225 to 227 of \<open>download_manga\<close>, the collation: both dictionaries are read
  by their sorted keys.\<close>

definition collate ::
  "bool \<Rightarrow> string list \<times> (nat \<times> string) list \<times> (nat \<times> string) list \<times> nat
   \<Rightarrow> exn + string list \<times> string list \<times> (nat \<times> string) list \<times> nat"
where
  "collate pdf_only acc =
     (case acc of (failed, saved_by_index, page_bytes_by_index, done_count) \<Rightarrow>
        (case lookup_all saved_by_index (sort (map fst saved_by_index)) of
           Inl exc \<Rightarrow> Inl exc
         | Inr saved_files \<Rightarrow>
            (case lookup_all page_bytes_by_index (sort (map fst page_bytes_by_index)) of
               Inl exc \<Rightarrow> Inl exc
             | Inr contents \<Rightarrow>
                 let page_bytes = zip (sort (map fst page_bytes_by_index)) contents;
                     saved = (if pdf_only then length page_bytes else length saved_files)
                 in Inr (failed, saved_files, page_bytes, saved))))"

text \<open>Lines 152 to 227 of \<open>download_manga\<close>: the result is \<open>failed\<close>, \<open>saved_files\<close>,
  \<open>page_bytes\<close> and \<open>saved\<close>.\<close>

definition fetch_phase ::
  "env \<Rightarrow> string \<Rightarrow> bool \<Rightarrow> workers_arg \<Rightarrow> bool \<Rightarrow> (string \<times> string) list \<Rightarrow> world
   \<Rightarrow> (exn + string list \<times> string list \<times> (nat \<times> string) list \<times> nat) \<times> world"
where
  "fetch_phase E output_dir pdf_only max_workers progress_callback images w =
     (let total_n = length images in
      case workers_input_of max_workers of
        Inl exc \<Rightarrow> (Inl exc, w)
      | Inr workers_input \<Rightarrow>
          let effective_workers = effective_workers_of workers_input total_n;
              w1 = notify progress_callback (ParallelDownload effective_workers total_n) w
          in if effective_workers \<le> 0
             then (Inl (ValueError ''max_workers must be greater than 0''), w1)
             else
              (case collect E output_dir pdf_only progress_callback total_n
                      (as_completed (duration E) (nat effective_workers) (descriptors images))
                      ([], [], [], 0) w1 of
                 (acc, w2) \<Rightarrow> (collate pdf_only acc, w2)))"

section \<open>The pipeline\<close>

text \<open>Lines 229 to 246: \<open>pdf_path\<close> and \<open>pdf_error\<close>.\<close>

definition document_phase ::
  "env \<Rightarrow> string \<Rightarrow> bool \<Rightarrow> string \<Rightarrow> bool \<Rightarrow> nat \<Rightarrow> string list \<Rightarrow> (nat \<times> string) list
   \<Rightarrow> bool \<Rightarrow> world \<Rightarrow> (string option \<times> string option) \<times> world"
where
  "document_phase E output_dir create_pdf pdf_filename pdf_only saved saved_files page_bytes
     progress_callback w =
     (if create_pdf
      then
        (let pdf_filename1 = (if \<not> endswith (lower pdf_filename) ''.pdf''
                              then pdf_filename @ ''.pdf'' else pdf_filename);
             pdf_path = path_join output_dir pdf_filename1
         in if saved > 0
            then
              (let w1 = notify progress_callback AssemblingPdf w
               in case (if pdf_only
                        then create_pdf_from_page_bytes E page_bytes pdf_path progress_callback w1
                        else create_pdf_from_images E saved_files pdf_path progress_callback w1) of
                    (Inl exc, w2) \<Rightarrow> ((Some pdf_path, Some (str_exn exc)), w2)
                  | (Inr u, w2) \<Rightarrow> ((Some pdf_path, None), w2))
            else ((Some pdf_path, Some msg_no_downloaded), w))
      else ((None, None), w))"

text \<open>\<open>session.get(url, timeout=20)\<close>, \<open>raise_for_status()\<close> and \<open>response.text\<close>.\<close>

definition fetch_page :: "env \<Rightarrow> string \<Rightarrow> world \<Rightarrow> (exn + string) \<times> world" where
  "fetch_page E url w =
     (case get_page E url of
        Inl exc \<Rightarrow> (Inl exc, log_io (HttpGet url False) w)
      | Inr page_response \<Rightarrow>
         (case raise_for_status page_response of
            Some exc \<Rightarrow> (Inl exc, log_io (HttpGet url True) w)
          | None \<Rightarrow> (Inr (body page_response), log_io (HttpGet url True) w)))"

text \<open>The dictionary that \<open>download_manga\<close> returns.\<close>

record report =
  report_total :: nat
  report_saved :: nat
  report_failed :: "string list"
  report_pdf_path :: "string option"
  report_pdf_error :: "string option"
  report_pdf_requested :: bool
  report_pdf_only :: bool

definition download_manga ::
  "env \<Rightarrow> string \<Rightarrow> string \<Rightarrow> bool \<Rightarrow> string \<Rightarrow> bool \<Rightarrow> workers_arg \<Rightarrow> bool \<Rightarrow> world
   \<Rightarrow> (exn + report) \<times> world"
where
  "download_manga E url output_dir create_pdf pdf_filename pdf_only max_workers
     progress_callback w =
     (case makedirs E output_dir w of
        (Inl exc, w1) \<Rightarrow> (Inl exc, w1)
      | (Inr u, w1) \<Rightarrow>
          if pdf_only \<and> \<not> create_pdf
          then (Inl (ValueError msg_pdf_only_needs_pdf), w1)
          else
           (case fetch_page E url w1 of
              (Inl exc, w2) \<Rightarrow> (Inl exc, w2)
            | (Inr html, w2) \<Rightarrow>
               (case extract_images html of
                  Inl exc \<Rightarrow> (Inl exc, w2)
                | Inr images \<Rightarrow>
                   (case fetch_phase E output_dir pdf_only max_workers progress_callback
                           images w2 of
                      (Inl exc, w3) \<Rightarrow> (Inl exc, w3)
                    | (Inr (failed, saved_files, page_bytes, saved), w3) \<Rightarrow>
                       (case document_phase E output_dir create_pdf pdf_filename pdf_only
                               saved saved_files page_bytes progress_callback w3 of
                          ((pdf_path, pdf_error), w4) \<Rightarrow>
                            (Inr \<lparr>report_total = length images,
                                  report_saved = saved,
                                  report_failed = failed,
                                  report_pdf_path = pdf_path,
                                  report_pdf_error = pdf_error,
                                  report_pdf_requested = create_pdf,
                                  report_pdf_only = pdf_only\<rparr>,
                             w4))))))"

section \<open>Notions of the specification\<close>

text \<open>\<open>clamp(x, lo, hi)\<close>, as the specification of the fetcher pool uses it.\<close>

definition clamp :: "int \<Rightarrow> int \<Rightarrow> int \<Rightarrow> int" where
  "clamp x lo hi = (if x < lo then lo else if hi < x then hi else x)"

text \<open>The classification of the specification, from the lower-cased extension of the
  URL path and the declared content type: a recognised extension is returned, with its
  synonyms normalised; otherwise the content type, without its parameters and the white
  space around it and in lower case, is looked up in the table, and \<open>.jpg\<close> is the default.\<close>

definition classify :: "string \<Rightarrow> string \<Rightarrow> string" where
  "classify ext content_type =
     (if ext = ''.jpg'' \<or> ext = ''.png'' \<or> ext = ''.webp'' then ext
      else if ext = ''.jpeg'' then ''.jpg''
      else if ext = ''.wepb'' then ''.webp''
      else
        (case map_of CONTENT_TYPE_TO_EXTENSION
                (lower (strip (takeWhile (\<lambda>c. c \<noteq> CHR '';'') content_type))) of
           Some e \<Rightarrow> e
         | None \<Rightarrow> ''.jpg''))"

text \<open>The documents that have been written: the paths of the \<open>save\<close> calls that
  returned, in the order of the calls. A run from \<open>w\<close> to \<open>w'\<close> has produced a document
  when this list has changed.\<close>

fun saved_pdf :: "io_event \<Rightarrow> string option" where
  "saved_pdf (SavePdf p ok) = (if ok then Some p else None)"
| "saved_pdf ev = None"

definition saved_pdfs :: "world \<Rightarrow> string list" where
  "saved_pdfs w = List.map_filter saved_pdf (trace w)"

definition document_produced :: "world \<Rightarrow> world \<Rightarrow> bool" where
  "document_produced w w' = (saved_pdfs w' \<noteq> saved_pdfs w)"

text \<open>The result of the fetch unit of a descriptor. It does not depend on the world the
  unit starts in (\<open>download_one_result\<close> below), so the empty one is taken.\<close>

definition empty_world :: world where
  "empty_world = \<lparr>files = [], dirs = [], trace = [], messages = []\<rparr>"

definition unit_result :: "env \<Rightarrow> string \<Rightarrow> bool \<Rightarrow> nat \<times> string \<times> string \<Rightarrow> fetch_result" where
  "unit_result E output_dir pdf_only task = fst (download_one E output_dir pdf_only task empty_world)"

fun result_index :: "fetch_result \<Rightarrow> nat" where
  "result_index (Failure index error) = index"
| "result_index (PageBytes index image_content) = index"
| "result_index (PageFile index filename) = index"

fun is_Failure :: "fetch_result \<Rightarrow> bool" where
  "is_Failure (Failure index error) = True"
| "is_Failure r = False"

definition unit_fails :: "env \<Rightarrow> string \<Rightarrow> bool \<Rightarrow> nat \<times> string \<times> string \<Rightarrow> bool" where
  "unit_fails E output_dir pdf_only task = is_Failure (unit_result E output_dir pdf_only task)"

text \<open>The results of the units in the order of the descriptors, which is the order of
  ascending index.\<close>

definition results_in_order ::
  "env \<Rightarrow> string \<Rightarrow> bool \<Rightarrow> (string \<times> string) list \<Rightarrow> fetch_result list"
where
  "results_in_order E output_dir pdf_only images =
     map (unit_result E output_dir pdf_only) (descriptors images)"

text \<open>The three parts of a list of results: the error texts, the saved files with their
  indices, and the page contents with their indices.\<close>

fun failure_of :: "fetch_result \<Rightarrow> string option" where
  "failure_of (Failure index error) = Some error"
| "failure_of r = None"

fun file_of :: "fetch_result \<Rightarrow> (nat \<times> string) option" where
  "file_of (PageFile index filename) = Some (index, filename)"
| "file_of r = None"

fun bytes_of :: "fetch_result \<Rightarrow> (nat \<times> string) option" where
  "bytes_of (PageBytes index image_content) = Some (index, image_content)"
| "bytes_of r = None"

text \<open>One turn of the collecting loop, on the result of the unit alone.\<close>

fun tally ::
  "string list \<times> (nat \<times> string) list \<times> (nat \<times> string) list \<times> nat \<Rightarrow> fetch_result
   \<Rightarrow> string list \<times> (nat \<times> string) list \<times> (nat \<times> string) list \<times> nat"
where
  "tally (failed, saved_by_index, page_bytes_by_index, done_count) (Failure index error) =
     (failed @ [error], saved_by_index, page_bytes_by_index, done_count + 1)"
| "tally (failed, saved_by_index, page_bytes_by_index, done_count) (PageBytes index image_content) =
     (failed, saved_by_index, AList.update index image_content page_bytes_by_index, done_count + 1)"
| "tally (failed, saved_by_index, page_bytes_by_index, done_count) (PageFile index filename) =
     (failed, AList.update index filename saved_by_index, page_bytes_by_index, done_count + 1)"

section \<open>Example inputs\<close>

text \<open>The scenario of the specification, as it is written there (the paths between
  single quotes), and with the paths between double quotes as on the site. The marker is
  the call with a first argument.\<close>

definition scenario_single_quotes :: string where
  "scenario_single_quotes =
     ''rm_h.readerInit( 0, [['http://cdn/a','' @ [sq, sq] @ '','p1.jpg'],['http://cdn/b',''
       @ [sq, sq] @ '','p2.jpg']]''"

text \<open>The same literal right behind the opening parenthesis of the call, without a first
  argument.\<close>

definition scenario_single_quotes_direct :: string where
  "scenario_single_quotes_direct =
     ''rm_h.readerInit([['http://cdn/a','' @ [sq, sq] @ '','p1.jpg'],['http://cdn/b',''
       @ [sq, sq] @ '','p2.jpg']]''"

definition scenario_double_quotes :: string where
  "scenario_double_quotes =
     ''rm_h.readerInit( 0, [['http://cdn/a','' @ [sq, sq, CHR '','', dq] @ ''p1.jpg''
       @ [dq] @ ''],['http://cdn/b','' @ [sq, sq, CHR '','', dq] @ ''p2.jpg'' @ [dq] @ '']]''"

fun page_pixels :: "page \<Rightarrow> string" where
  "page_pixels (OverWhite img) = pixels img"
| "page_pixels (AsRGB img) = pixels img"

text \<open>A server that delivers the chapter page of the scenario and the first image, and
  fails on the others; an installation where every file operation succeeds and a document
  is written as the pixels of its pages one after the other.\<close>

definition example_env :: env where
  "example_env =
     \<lparr>makedirs_error = (\<lambda>p. None),
      get_page = (\<lambda>u. Inr \<lparr>status_code = 200, body = scenario_double_quotes,
                            content_type_header = None\<rparr>),
      get_image = (\<lambda>i u. if i = 1
                          then Inr \<lparr>status_code = 200, body = ''img'',
                                    content_type_header = Some ''image/png''\<rparr>
                          else Inl (RequestException ''timed out'')),
      write_error = (\<lambda>p. None),
      pillow_installed = True,
      image_open = (\<lambda>b. Inr \<lparr>mode = ''RGB'', transparency = False, pixels = b\<rparr>),
      pdf_bytes = (\<lambda>ps. concat (map page_pixels ps)),
      save_error = (\<lambda>p. None),
      netloc_ok = (\<lambda>n. True),
      duration = (\<lambda>i. 3 - i)\<rparr>"

text \<open>The same, with a server on which every image request fails.\<close>

definition offline_env :: env where
  "offline_env = example_env\<lparr>get_image := (\<lambda>i u. Inl (RequestException ''timed out''))\<rparr>"

text \<open>The report and the world at the end of a run in \<open>example_env\<close>, see \<open>example_run\<close>
  below.\<close>

definition example_report :: report where
  "example_report =
     \<lparr>report_total = 2, report_saved = 1,
      report_failed = [''http://cdn/bp2.jpg (timed out)''],
      report_pdf_path = Some ''manga/chapter.pdf'', report_pdf_error = None,
      report_pdf_requested = True, report_pdf_only = False\<rparr>"

definition example_final_world :: world where
  "example_final_world =
     \<lparr>files = [(''manga/001.jpg'', ''img''), (''manga/chapter.pdf'', ''img'')],
      dirs = [''manga''],
      trace = [MakeDirs ''manga'' True, HttpGet ''http://site/chapter'' True,
               HttpGet ''http://cdn/bp2.jpg'' False, HttpGet ''http://cdn/ap1.jpg'' True,
               WriteFile ''manga/001.jpg'' True, ReadFile ''manga/001.jpg'' True,
               SavePdf ''manga/chapter.pdf'' True],
      messages = [ParallelDownload 2 2, PageFailed 1 2 2, PageSaved 2 2 ''001.jpg'',
                  AssemblingPdf, PdfAddFile 1 1 ''001.jpg'']\<rparr>"

text \<open>The same, with a server that delivers every image. The second unit runs for a
  shorter time than the first, so with two workers it completes first.\<close>

definition online_env :: env where
  "online_env =
     example_env\<lparr>get_image := (\<lambda>i u. Inr \<lparr>status_code = 200, body = ''img'' @ digits i,
                                               content_type_header = Some ''image/png''\<rparr>)\<rparr>"

text \<open>The reports and the worlds at the end of the runs in \<open>online_env\<close>, in the mode that
  keeps the image files and in PDF-only mode.\<close>

definition online_report :: "bool \<Rightarrow> report" where
  "online_report pdf_only =
     \<lparr>report_total = 2, report_saved = 2, report_failed = [],
      report_pdf_path = Some ''manga/chapter.pdf'', report_pdf_error = None,
      report_pdf_requested = True, report_pdf_only = pdf_only\<rparr>"

definition online_files_world :: world where
  "online_files_world =
     \<lparr>files = [(''manga/002.jpg'', ''img2''), (''manga/001.jpg'', ''img1''),
               (''manga/chapter.pdf'', ''img1img2'')],
      dirs = [''manga''],
      trace = [MakeDirs ''manga'' True, HttpGet ''http://site/chapter'' True,
               HttpGet ''http://cdn/bp2.jpg'' True, WriteFile ''manga/002.jpg'' True,
               HttpGet ''http://cdn/ap1.jpg'' True, WriteFile ''manga/001.jpg'' True,
               ReadFile ''manga/001.jpg'' True, ReadFile ''manga/002.jpg'' True,
               SavePdf ''manga/chapter.pdf'' True],
      messages = [ParallelDownload 2 2, PageSaved 1 2 ''002.jpg'', PageSaved 2 2 ''001.jpg'',
                  AssemblingPdf, PdfAddFile 1 2 ''001.jpg'', PdfAddFile 2 2 ''002.jpg'']\<rparr>"

definition online_bytes_world :: world where
  "online_bytes_world =
     \<lparr>files = [(''manga/chapter.pdf'', ''img1img2'')],
      dirs = [''manga''],
      trace = [MakeDirs ''manga'' True, HttpGet ''http://site/chapter'' True,
               HttpGet ''http://cdn/bp2.jpg'' True, HttpGet ''http://cdn/ap1.jpg'' True,
               SavePdf ''manga/chapter.pdf'' True],
      messages = [ParallelDownload 2 2, PageReceived 1 2 2, PageReceived 2 2 1,
                  AssemblingPdf, PdfAddPage 1 2 1, PdfAddPage 2 2 2]\<rparr>"

text \<open>A chapter page whose array has two entries with further fields, inside a script
  element.\<close>

definition example_entries :: "(string \<times> string \<times> string) list" where
  "example_entries =
     [(''http://cdn/a'', ''p1.jpg'', '',800,1200],''),
      (''http://cdn/b'', ''p2.jpg'', '',800,1200]'')]"

definition example_page :: string where
  "example_page =
     ''<script>'' @ ''rm_h.readerInit('' @ '' 0'' @ '','' @ '' '' @ ''[''
       @ entries_text example_entries @ '']'' @ '', false);</script>''"

text \<open>A page whose array has three entries, the path of the second with two closing
  brackets in it; and the same with the brackets in the path of the first.\<close>

definition bracket_entries :: "(string \<times> string \<times> string) list" where
  "bracket_entries =
     [(''http://cdn/a'', ''p1.jpg'', '',800,1200],''),
      (''http://cdn/b'', ''p]]2.jpg'', '',800,1200],''),
      (''http://cdn/c'', ''p3.jpg'', '',800,1200]'')]"

definition bracket_page :: string where
  "bracket_page =
     ''<script>'' @ ''rm_h.readerInit('' @ '' 0'' @ '','' @ '' '' @ ''[''
       @ entries_text bracket_entries @ '']'' @ '', false);</script>''"

definition bracket_first_entries :: "(string \<times> string \<times> string) list" where
  "bracket_first_entries =
     [(''http://cdn/a'', ''p]]1.jpg'', '',800,1200],''),
      (''http://cdn/b'', ''p2.jpg'', '',800,1200],''),
      (''http://cdn/c'', ''p3.jpg'', '',800,1200]'')]"

definition bracket_first_page :: string where
  "bracket_first_page =
     ''<script>'' @ ''rm_h.readerInit('' @ '' 0'' @ '','' @ '' '' @ ''[''
       @ entries_text bracket_first_entries @ '']'' @ '', false);</script>''"

text \<open>Ten descriptors, for the scenario of the worker count.\<close>

definition ten_images :: "(string \<times> string) list" where
  "ten_images = map (\<lambda>i. (''http://cdn/'', digits i @ ''.jpg'')) [1..<11]"

section \<open>The worker count\<close>

text \<open>The expression of line 160 is the clamp of the specification.\<close>

lemma effective_workers_clamp:
  "1 \<le> N \<Longrightarrow>
     effective_workers_of w N = clamp w 1 (min MAX_DOWNLOAD_WORKERS (int N))"
  by (auto simp: effective_workers_of_def clamp_def MAX_DOWNLOAD_WORKERS_def)

lemma clamp_range: "lo \<le> hi \<Longrightarrow> lo \<le> clamp x lo hi \<and> clamp x lo hi \<le> hi"
  by (simp add: clamp_def)

lemma messages_download_one:
  "messages (snd (download_one E output_dir pdf_only task w)) = messages w"
  by (simp add: download_one_def log_io_def Let_def split: prod.splits sum.splits option.splits)

lemma messages_collect:
  "\<exists>ms. messages (snd (collect E output_dir pdf_only progress_callback total_n tasks acc w))
          = messages w @ ms"
proof (induction tasks arbitrary: acc w)
  case Nil
  show ?case by simp
next
  case (Cons task rest)
  obtain failed saved_by_index page_bytes_by_index done_count
    where acc: "acc = (failed, saved_by_index, page_bytes_by_index, done_count)"
    by (cases acc) auto
  obtain r w1 where d: "download_one E output_dir pdf_only task w = (r, w1)"
    by (cases "download_one E output_dir pdf_only task w") auto
  from d have m: "messages w1 = messages w"
    using messages_download_one [of E output_dir pdf_only task w] by simp
  show ?case
  proof (cases r)
    case (Failure index error)
    from Cons.IH [of "(failed @ [error], saved_by_index, page_bytes_by_index, done_count + 1)"
                    "notify progress_callback (PageFailed (done_count + 1) total_n index) w1"]
    show ?thesis
      by (auto simp: acc d Failure m notify_def)
  next
    case (PageBytes index image_content)
    from Cons.IH [of "(failed, saved_by_index,
                       AList.update index image_content page_bytes_by_index, done_count + 1)"
                    "notify progress_callback (PageReceived (done_count + 1) total_n index) w1"]
    show ?thesis
      by (auto simp: acc d PageBytes m notify_def)
  next
    case (PageFile index filename)
    from Cons.IH [of "(failed, AList.update index filename saved_by_index,
                       page_bytes_by_index, done_count + 1)"
                    "notify progress_callback
                       (PageSaved (done_count + 1) total_n (basename filename)) w1"]
    show ?thesis
      by (auto simp: acc d PageFile m notify_def)
  qed
qed

text \<open>
  Claim C6. For every requested worker count \<open>w\<close> and every number \<open>N \<ge> 1\<close> of
  descriptors, the fetch phase runs its units on a pool of
  \<open>clamp(w, 1, min(MAX_DOWNLOAD_WORKERS, N))\<close> workers: it is the collecting loop over the
  units as that pool completes them, after the message that announces the pool with this
  number of workers, which is the first message of the phase. The number lies between 1
  and \<open>min(MAX_DOWNLOAD_WORKERS, N)\<close>.
\<close>

theorem pool_workers_is_clamp:
  "images \<noteq> [] \<Longrightarrow>
     fetch_phase E output_dir pdf_only (IntValue w) progress_callback images ws
       = (case collect E output_dir pdf_only progress_callback (length images)
                 (as_completed (duration E)
                    (nat (clamp w 1 (min MAX_DOWNLOAD_WORKERS (int (length images)))))
                    (descriptors images))
                 ([], [], [], 0)
                 (notify progress_callback
                    (ParallelDownload (clamp w 1 (min MAX_DOWNLOAD_WORKERS (int (length images))))
                       (length images)) ws) of
            (acc, w2) \<Rightarrow> (collate pdf_only acc, w2))
     \<and> 1 \<le> clamp w 1 (min MAX_DOWNLOAD_WORKERS (int (length images)))
     \<and> clamp w 1 (min MAX_DOWNLOAD_WORKERS (int (length images)))
         \<le> min MAX_DOWNLOAD_WORKERS (int (length images))
     \<and> (\<exists>ms. messages (snd (fetch_phase E output_dir pdf_only (IntValue w) True images ws))
               = messages ws
                 @ ParallelDownload (clamp w 1 (min MAX_DOWNLOAD_WORKERS (int (length images))))
                     (length images) # ms)"
proof -
  assume "images \<noteq> []"
  then have n: "1 \<le> length images"
    by (cases images) simp_all
  let ?k = "clamp w 1 (min MAX_DOWNLOAD_WORKERS (int (length images)))"
  have k: "effective_workers_of w (length images) = ?k"
    using n by (rule effective_workers_clamp)
  from n have "(1::int) \<le> min MAX_DOWNLOAD_WORKERS (int (length images))"
    by (simp add: MAX_DOWNLOAD_WORKERS_def)
  then have r: "1 \<le> ?k \<and> ?k \<le> min MAX_DOWNLOAD_WORKERS (int (length images))"
    by (rule clamp_range)
  then have pos: "\<not> ?k \<le> 0"
    by simp
  have f: "fetch_phase E output_dir pdf_only (IntValue w) cb images ws
       = (case collect E output_dir pdf_only cb (length images)
                 (as_completed (duration E) (nat ?k) (descriptors images))
                 ([], [], [], 0)
                 (notify cb (ParallelDownload ?k (length images)) ws) of
            (acc, w2) \<Rightarrow> (collate pdf_only acc, w2))" for cb
    using pos by (simp add: fetch_phase_def workers_input_of_def Let_def k)
  obtain ms where
    "messages (snd (collect E output_dir pdf_only True (length images)
                 (as_completed (duration E) (nat ?k) (descriptors images))
                 ([], [], [], 0)
                 (notify True (ParallelDownload ?k (length images)) ws)))
     = messages (notify True (ParallelDownload ?k (length images)) ws) @ ms"
    using messages_collect by blast
  then have "messages (snd (fetch_phase E output_dir pdf_only (IntValue w) True images ws))
               = messages ws @ ParallelDownload ?k (length images) # ms"
    by (simp add: f [of True] notify_def case_prod_beta)
  with f [of progress_callback] r show ?thesis
    by blast
qed

text \<open>The scenario of claim C6: ten descriptors and fifty requested workers give a pool
  of ten.\<close>

theorem pool_workers_is_clamp_witness:
  "ten_images \<noteq> [] \<and> length ten_images = 10
   \<and> clamp 50 1 (min MAX_DOWNLOAD_WORKERS (int (length ten_images))) = 10
   \<and> fetch_phase offline_env ''manga'' False (IntValue 50) True ten_images empty_world
       = (case collect offline_env ''manga'' False True 10
                 (as_completed (duration offline_env) 10 (descriptors ten_images))
                 ([], [], [], 0)
                 (notify True (ParallelDownload 10 10) empty_world) of
            (acc, w2) \<Rightarrow> (collate False acc, w2))
   \<and> (\<exists>ms. messages (snd (fetch_phase offline_env ''manga'' False (IntValue 50) True
                             ten_images empty_world))
             = ParallelDownload 10 10 # ms)"
proof -
  have ne: "ten_images \<noteq> []"
    by (simp add: ten_images_def)
  have len: "length ten_images = 10"
    by (simp add: ten_images_def)
  have c: "clamp 50 1 (min MAX_DOWNLOAD_WORKERS (int (length ten_images))) = 10"
    by (simp add: len clamp_def MAX_DOWNLOAD_WORKERS_def)
  have e: "messages empty_world = []"
    by (simp add: empty_world_def)
  note t = pool_workers_is_clamp [OF ne, of offline_env "''manga''" False 50 True empty_world]
  have g1: "fetch_phase offline_env ''manga'' False (IntValue 50) True ten_images empty_world
       = (case collect offline_env ''manga'' False True 10
                 (as_completed (duration offline_env) 10 (descriptors ten_images))
                 ([], [], [], 0)
                 (notify True (ParallelDownload 10 10) empty_world) of
            (acc, w2) \<Rightarrow> (collate False acc, w2))"
    using t [THEN conjunct1] by (simp add: len clamp_def MAX_DOWNLOAD_WORKERS_def)
  have g4: "\<exists>ms. messages (snd (fetch_phase offline_env ''manga'' False (IntValue 50) True
                             ten_images empty_world))
             = ParallelDownload 10 10 # ms"
    using t [THEN conjunct2, THEN conjunct2, THEN conjunct2]
    by (simp add: len e clamp_def MAX_DOWNLOAD_WORKERS_def)
  show ?thesis
    by (intro conjI ne len c g1 g4)
qed




section \<open>Assembling no pages\<close>

text \<open>
  Claim C9. Assembling an empty sequence of pages fails with the error for no pages and
  leaves the world as it was: nothing is written. \<open>_save_pdf_pages\<close> does so always, and
  the two functions that call it do so when Pillow can be imported (they raise the
  \<open>RuntimeError\<close> of the import otherwise, and write nothing either).
\<close>

theorem assemble_no_pages:
  "save_pdf_pages E [] pdf_path w = (Inl (ValueError msg_no_pages), w)
   \<and> create_pdf_from_images E [] pdf_path progress_callback w
      = (if pillow_installed E then Inl (ValueError msg_no_pages)
         else Inl (RuntimeError msg_pillow), w)
   \<and> create_pdf_from_page_bytes E [] pdf_path progress_callback w
      = (if pillow_installed E then Inl (ValueError msg_no_pages)
         else Inl (RuntimeError msg_pillow), w)"
  by (simp add: save_pdf_pages_def create_pdf_from_images_def create_pdf_from_page_bytes_def)

section \<open>The scenario of the extractor\<close>

text \<open>
  Claim C3, as it is stated, fails: on the marker followed by the literal of the
  specification, whose paths are between single quotes, no entry matches the second
  expression and the extraction raises. When the literal stands right behind the opening
  parenthesis the first expression does not match either, since it asks for a first
  argument and a comma in front of the array.
\<close>

theorem scenario_single_quotes_fails:
  "extract_images scenario_single_quotes = Inl (ValueError msg_no_links)
   \<and> extract_images scenario_single_quotes_direct = Inl (ValueError msg_pages_not_found)"
  by code_simp

text \<open>
  Claim C3, amended: with the paths between double quotes, the extraction gives the two
  descriptors, index 1 with base \<open>http://cdn/a\<close> and path \<open>p1.jpg\<close>, index 2 with base
  \<open>http://cdn/b\<close> and path \<open>p2.jpg\<close>.
\<close>

theorem scenario_double_quotes_descriptors:
  "extract_images scenario_double_quotes
     = Inr [(''http://cdn/a'', ''p1.jpg''), (''http://cdn/b'', ''p2.jpg'')]
   \<and> descriptors [(''http://cdn/a'', ''p1.jpg''), (''http://cdn/b'', ''p2.jpg'')]
     = [(1, ''http://cdn/a'', ''p1.jpg''), (2, ''http://cdn/b'', ''p2.jpg'')]"
  by code_simp

section \<open>The rejected combination of options\<close>

text \<open>With \<open>pdf_only\<close> set and \<open>create_pdf\<close> not set, every call runs \<open>os.makedirs\<close> and
  nothing else: it raises what \<open>os.makedirs\<close> raises, or else the \<open>ValueError\<close> of the
  combination, with the directory made.\<close>

lemma rejected_combination_after_makedirs:
  "download_manga E url output_dir False pdf_filename True max_workers progress_callback w
     = (case makedirs_error E output_dir of
          Some exc \<Rightarrow> (Inl exc, log_io (MakeDirs output_dir False) w)
        | None \<Rightarrow>
            (Inl (ValueError msg_pdf_only_needs_pdf),
             log_io (MakeDirs output_dir True) (w\<lparr>dirs := List.insert output_dir (dirs w)\<rparr>)))"
  by (simp add: download_manga_def makedirs_def split: option.splits)

text \<open>
  Claim C2 does not hold of the code: with \<open>pdf_only\<close> set and \<open>create_pdf\<close> not set, the
  call raises the \<open>ValueError\<close> of the combination only after \<open>os.makedirs\<close> has run. Here
  the output directory did not exist before the call and exists after it.
\<close>

theorem pdf_only_without_pdf_makes_directory:
  "download_manga example_env ''http://site/chapter'' ''manga'' False DEFAULT_PDF_NAME True
      (IntValue 8) False empty_world
   = (Inl (ValueError msg_pdf_only_needs_pdf),
      \<lparr>files = [], dirs = [''manga''], trace = [MakeDirs ''manga'' True], messages = []\<rparr>)"
  by code_simp

section \<open>The fetch phase\<close>

subsection \<open>The result of one unit\<close>

lemma download_one_result:
  "fst (download_one E output_dir pdf_only task w) = unit_result E output_dir pdf_only task"
  by (simp add: unit_result_def download_one_def Let_def
      split: prod.splits sum.splits option.splits)

lemma unit_result_index:
  "result_index (unit_result E output_dir pdf_only (index, base, path)) = index"
  by (simp add: unit_result_def download_one_def Let_def
      split: prod.splits sum.splits option.splits)

lemma map_result_index:
  "map result_index (map (unit_result E output_dir pdf_only) tasks) = map fst tasks"
  by (induction tasks) (auto simp: unit_result_index)

lemma unit_result_pdf_only:
  "pdf_only \<Longrightarrow> file_of (unit_result E output_dir pdf_only task) = None"
  by (simp add: unit_result_def download_one_def Let_def
      split: prod.splits sum.splits option.splits)

lemma unit_result_files:
  "\<not> pdf_only \<Longrightarrow> bytes_of (unit_result E output_dir pdf_only task) = None"
  by (simp add: unit_result_def download_one_def Let_def
      split: prod.splits sum.splits option.splits)

text \<open>The error text of a failure is never empty.\<close>

lemma failure_text_not_empty: "failure_text img_url exc \<noteq> []"
  by (simp add: failure_text_def)

lemma unit_failure_not_empty:
  "unit_result E output_dir pdf_only task = Failure index error \<Longrightarrow> error \<noteq> []"
  by (auto simp: unit_result_def download_one_def Let_def failure_text_not_empty
      split: prod.splits sum.splits option.splits if_splits)

subsection \<open>The collecting loop\<close>

lemma collect_results:
  "fst (collect E output_dir pdf_only progress_callback total_n tasks acc w)
     = foldl tally acc (map (unit_result E output_dir pdf_only) tasks)"
proof (induction tasks arbitrary: acc w)
  case Nil
  show ?case by simp
next
  case (Cons task rest)
  obtain failed sbi pbi d where acc: "acc = (failed, sbi, pbi, d)"
    by (cases acc) auto
  obtain r w1 where d1: "download_one E output_dir pdf_only task w = (r, w1)"
    by (cases "download_one E output_dir pdf_only task w") auto
  then have r: "unit_result E output_dir pdf_only task = r"
    using download_one_result [of E output_dir pdf_only task w] by simp
  show ?case
    by (cases r) (simp_all add: acc d1 r Cons.IH)
qed

lemma update_fresh: "k \<notin> fst ` set al \<Longrightarrow> AList.update k v al = al @ [(k, v)]"
  by (induction al) auto

lemma foldl_tally:
  "distinct (map result_index rs) \<Longrightarrow>
   set (map result_index rs) \<inter> (fst ` set sbi \<union> fst ` set pbi) = {} \<Longrightarrow>
   foldl tally (failed, sbi, pbi, d) rs
     = (failed @ List.map_filter failure_of rs,
        sbi @ List.map_filter file_of rs,
        pbi @ List.map_filter bytes_of rs,
        d + length rs)"
proof (induction rs arbitrary: failed sbi pbi d)
  case Nil
  show ?case by (simp add: List.map_filter_simps)
next
  case (Cons r rs)
  show ?case
  proof (cases r)
    case (Failure i e)
    with Cons.prems have "foldl tally (failed @ [e], sbi, pbi, d + 1) rs
       = ((failed @ [e]) @ List.map_filter failure_of rs,
          sbi @ List.map_filter file_of rs,
          pbi @ List.map_filter bytes_of rs,
          (d + 1) + length rs)"
      by (intro Cons.IH) auto
    with Failure show ?thesis by (simp add: List.map_filter_simps)
  next
    case (PageBytes i c)
    with Cons.prems have fresh: "i \<notin> fst ` set pbi" by auto
    from PageBytes Cons.prems have "foldl tally (failed, sbi, pbi @ [(i, c)], d + 1) rs
       = (failed @ List.map_filter failure_of rs,
          sbi @ List.map_filter file_of rs,
          (pbi @ [(i, c)]) @ List.map_filter bytes_of rs,
          (d + 1) + length rs)"
      by (intro Cons.IH) auto
    with PageBytes fresh show ?thesis by (simp add: List.map_filter_simps update_fresh)
  next
    case (PageFile i f)
    with Cons.prems have fresh: "i \<notin> fst ` set sbi" by auto
    from PageFile Cons.prems have "foldl tally (failed, sbi @ [(i, f)], pbi, d + 1) rs
       = (failed @ List.map_filter failure_of rs,
          (sbi @ [(i, f)]) @ List.map_filter file_of rs,
          pbi @ List.map_filter bytes_of rs,
          (d + 1) + length rs)"
      by (intro Cons.IH) auto
    with PageFile fresh show ?thesis by (simp add: List.map_filter_simps update_fresh)
  qed
qed

subsection \<open>The pool completes every unit once\<close>

lemma pool_finish_tasks:
  "free \<noteq> [] \<Longrightarrow> map snd (pool_finish dur free tasks) = tasks"
proof (induction tasks arbitrary: free)
  case Nil
  show ?case by simp
next
  case (Cons t ts)
  obtain f free' where free: "free = f # free'"
    using Cons.prems by (cases free) auto
  obtain i x where t: "t = (i, x)"
    by (cases t) auto
  have "insort (f + dur i) free' \<noteq> []"
    by (cases free') auto
  then show ?case
    by (simp add: free t Cons.IH)
qed

lemma mset_as_completed:
  "0 < workers \<Longrightarrow> mset (as_completed dur workers tasks) = mset tasks"
proof -
  assume "0 < workers"
  then have ne: "replicate workers (0::nat) \<noteq> []" by simp
  have "mset (as_completed dur workers tasks)
          = image_mset snd (mset (pool_finish dur (replicate workers 0) tasks))"
    by (simp add: as_completed_def)
  also have "\<dots> = mset (map snd (pool_finish dur (replicate workers 0) tasks))"
    by simp
  also have "\<dots> = mset tasks"
    by (simp only: pool_finish_tasks [OF ne])
  finally show ?thesis .
qed

subsection \<open>The parts of a list of results\<close>

lemma index_of_file: "file_of r = Some (i, f) \<Longrightarrow> result_index r = i"
  by (cases r) auto

lemma index_of_bytes: "bytes_of r = Some (i, c) \<Longrightarrow> result_index r = i"
  by (cases r) auto

lemma keys_of_files:
  "set (map fst (List.map_filter file_of rs)) \<subseteq> set (map result_index rs)"
  by (induction rs) (auto simp: List.map_filter_simps split: option.splits dest: index_of_file)

lemma keys_of_bytes:
  "set (map fst (List.map_filter bytes_of rs)) \<subseteq> set (map result_index rs)"
  by (induction rs) (auto simp: List.map_filter_simps split: option.splits dest: index_of_bytes)

lemma distinct_files:
  "distinct (map result_index rs) \<Longrightarrow> distinct (map fst (List.map_filter file_of rs))"
proof (induction rs)
  case Nil
  show ?case by (simp add: List.map_filter_simps)
next
  case (Cons r rs)
  then show ?case
    using keys_of_files [of rs]
    by (auto simp: List.map_filter_simps split: option.splits dest!: index_of_file)
qed

lemma distinct_bytes:
  "distinct (map result_index rs) \<Longrightarrow> distinct (map fst (List.map_filter bytes_of rs))"
proof (induction rs)
  case Nil
  show ?case by (simp add: List.map_filter_simps)
next
  case (Cons r rs)
  then show ?case
    using keys_of_bytes [of rs]
    by (auto simp: List.map_filter_simps split: option.splits dest!: index_of_bytes)
qed

lemma sorted_files:
  "sorted (map result_index rs) \<Longrightarrow> sorted (map fst (List.map_filter file_of rs))"
proof (induction rs)
  case Nil
  show ?case by (simp add: List.map_filter_simps)
next
  case (Cons r rs)
  then show ?case
    using keys_of_files [of rs]
    by (auto simp: List.map_filter_simps split: option.splits dest!: index_of_file)
qed

lemma sorted_bytes:
  "sorted (map result_index rs) \<Longrightarrow> sorted (map fst (List.map_filter bytes_of rs))"
proof (induction rs)
  case Nil
  show ?case by (simp add: List.map_filter_simps)
next
  case (Cons r rs)
  then show ?case
    using keys_of_bytes [of rs]
    by (auto simp: List.map_filter_simps split: option.splits dest!: index_of_bytes)
qed

lemma mset_map_filter:
  "mset xs = mset ys \<Longrightarrow> mset (List.map_filter f xs) = mset (List.map_filter f ys)"
  by (simp add: List.map_filter_def)

lemma length_map_filter:
  "length (List.map_filter f xs) = length (filter (\<lambda>x. f x \<noteq> None) xs)"
  by (simp add: List.map_filter_def)

lemma length_filter_mset:
  "mset xs = mset ys \<Longrightarrow> length (filter P xs) = length (filter P ys)"
  by (metis mset_filter size_mset)

subsection \<open>Reading a dictionary by its sorted keys\<close>

lemma lookup_all_items:
  "distinct (map fst d) \<Longrightarrow> set xs \<subseteq> set d \<Longrightarrow> lookup_all d (map fst xs) = Inr (map snd xs)"
  by (induction xs) (auto simp: map_of_is_SomeI)

lemma sort_map_key: "sort (map f xs) = map f (sort_key f xs)"
  by (rule properties_for_sort) (simp_all add: sorted_sort_key)

lemma lookup_all_sorted_keys:
  assumes "distinct (map fst d)"
  shows "lookup_all d (sort (map fst d)) = Inr (map snd (sort_key fst d))"
  unfolding sort_map_key using assms by (intro lookup_all_items) auto

lemma zip_sorted_keys:
  "zip (sort (map fst d)) (map snd (sort_key fst d)) = sort_key fst d"
  unfolding sort_map_key by (rule zip_map_fst_snd)

lemma sort_key_completed:
  assumes "mset xs = mset ys" and "distinct (map fst xs)" and "sorted (map fst ys)"
  shows "sort_key fst xs = ys"
  using assms by (intro sort_key_inj_key_eq) (auto simp: distinct_map)

subsection \<open>What the fetch phase returns\<close>

lemma effective_workers_positive: "0 < effective_workers_of workers_input n"
  by (simp add: effective_workers_of_def)

text \<open>
  Whatever the order in which the units complete, the collation of what the loop has
  collected gives the error texts in the order of completion, and the saved files and the
  page contents in the order of the descriptors.
\<close>

lemma collate_any_order:
  fixes E :: env and output_dir :: string and pdf_only :: bool
    and images :: "(string \<times> string) list" and tasks :: "(nat \<times> string \<times> string) list"
  assumes perm: "mset tasks = mset (descriptors images)"
  defines "rs0 \<equiv> results_in_order E output_dir pdf_only images"
    and "rs \<equiv> map (unit_result E output_dir pdf_only) tasks"
  shows "collate pdf_only
           (fst (collect E output_dir pdf_only progress_callback total_n tasks ([], [], [], 0) w))
           = Inr (List.map_filter failure_of rs,
                  map snd (List.map_filter file_of rs0),
                  List.map_filter bytes_of rs0,
                  (if pdf_only then length (List.map_filter bytes_of rs0)
                   else length (List.map_filter file_of rs0)))"
proof -
  let ?S = "List.map_filter file_of rs"
  let ?B = "List.map_filter bytes_of rs"
  have perm_rs: "mset rs = mset rs0"
    unfolding rs_def rs0_def results_in_order_def using perm by (simp only: mset_map)
  have idx0: "map result_index rs0 = [1..<Suc (length images)]"
    unfolding rs0_def results_in_order_def map_result_index by (simp add: descriptors_def)
  have "mset (map result_index rs) = mset (map result_index rs0)"
    using perm_rs by (simp only: mset_map)
  then have dist: "distinct (map result_index rs)"
    using idx0 by (metis distinct_upt mset_eq_imp_distinct_iff)
  have sorted0: "sorted (map result_index rs0)"
    unfolding idx0 by (rule sorted_upt)
  have S: "sort_key fst ?S = List.map_filter file_of rs0"
    by (intro sort_key_completed mset_map_filter perm_rs distinct_files dist sorted_files sorted0)
  have B: "sort_key fst ?B = List.map_filter bytes_of rs0"
    by (intro sort_key_completed mset_map_filter perm_rs distinct_bytes dist sorted_bytes sorted0)
  have col: "fst (collect E output_dir pdf_only progress_callback total_n tasks ([], [], [], 0) w)
          = (List.map_filter failure_of rs, ?S, ?B, length rs)"
    unfolding collect_results using foldl_tally [OF dist, of "[]" "[]" "[]" 0]
    by (simp add: rs_def)
  have lS: "lookup_all ?S (sort (map fst ?S)) = Inr (map snd (List.map_filter file_of rs0))"
    using lookup_all_sorted_keys [OF distinct_files [OF dist]] by (simp only: S)
  have lB: "lookup_all ?B (sort (map fst ?B)) = Inr (map snd (List.map_filter bytes_of rs0))"
    using lookup_all_sorted_keys [OF distinct_bytes [OF dist]] by (simp only: B)
  have zB: "zip (sort (map fst ?B)) (map snd (List.map_filter bytes_of rs0))
              = List.map_filter bytes_of rs0"
    using zip_sorted_keys [of ?B] by (simp only: B)
  show ?thesis
    by (simp add: col collate_def lS lB zB Let_def)
qed

lemma fetch_phase_result:
  fixes E :: env and output_dir :: string and pdf_only :: bool
    and images :: "(string \<times> string) list" and workers_input :: int
  assumes conv: "workers_input_of max_workers = Inr workers_input"
  defines "rs0 \<equiv> map (unit_result E output_dir pdf_only) (descriptors images)"
    and "rs \<equiv> map (unit_result E output_dir pdf_only)
                 (as_completed (duration E)
                    (nat (effective_workers_of workers_input (length images)))
                    (descriptors images))"
  shows "fst (fetch_phase E output_dir pdf_only max_workers progress_callback images w)
           = Inr (List.map_filter failure_of rs,
                  map snd (List.map_filter file_of rs0),
                  List.map_filter bytes_of rs0,
                  (if pdf_only then length (List.map_filter bytes_of rs0)
                   else length (List.map_filter file_of rs0)))"
proof -
  let ?k = "effective_workers_of workers_input (length images)"
  let ?ts = "as_completed (duration E) (nat ?k) (descriptors images)"
  let ?w1 = "notify progress_callback (ParallelDownload ?k (length images)) w"
  have pos: "0 < ?k" by (rule effective_workers_positive)
  then have perm: "mset ?ts = mset (descriptors images)"
    by (intro mset_as_completed) simp
  note c = collate_any_order [OF perm, of pdf_only E output_dir progress_callback
                               "length images" ?w1]
  have "fst (fetch_phase E output_dir pdf_only max_workers progress_callback images w)
          = collate pdf_only
              (fst (collect E output_dir pdf_only progress_callback (length images) ?ts
                      ([], [], [], 0) ?w1))"
    using pos by (simp add: fetch_phase_def conv Let_def case_prod_beta)
  then show ?thesis
    unfolding c by (simp add: rs_def rs0_def results_in_order_def)
qed

lemma mset_completed_results:
  "mset (map (unit_result E output_dir pdf_only)
           (as_completed dur (nat (effective_workers_of workers_input n)) tasks))
     = mset (map (unit_result E output_dir pdf_only) tasks)"
proof -
  have "0 < nat (effective_workers_of workers_input n)"
    using effective_workers_positive [of workers_input n] by simp
  then show ?thesis
    by (simp only: mset_map mset_as_completed)
qed

lemma failure_of_iff: "(\<exists>e. failure_of r = Some e) = is_Failure r"
  by (cases r) auto

lemma bytes_of_iff:
  "pdf_only \<Longrightarrow>
     (\<exists>i c. bytes_of (unit_result E output_dir pdf_only task) = Some (i, c))
       = (\<not> unit_fails E output_dir pdf_only task)"
  using unit_result_pdf_only [of pdf_only E output_dir task]
  by (cases "unit_result E output_dir pdf_only task") (auto simp: unit_fails_def)

lemma file_of_iff:
  "\<not> pdf_only \<Longrightarrow>
     (\<exists>i f. file_of (unit_result E output_dir pdf_only task) = Some (i, f))
       = (\<not> unit_fails E output_dir pdf_only task)"
  using unit_result_files [of pdf_only E output_dir task]
  by (cases "unit_result E output_dir pdf_only task") (auto simp: unit_fails_def)

lemma count_failures:
  "length (List.map_filter failure_of (map (unit_result E output_dir pdf_only) tasks))
     = length (filter (\<lambda>t. unit_fails E output_dir pdf_only t) tasks)"
  by (simp add: length_map_filter filter_map comp_def failure_of_iff unit_fails_def [abs_def])

lemma count_bytes:
  "pdf_only \<Longrightarrow>
     length (List.map_filter bytes_of (map (unit_result E output_dir pdf_only) tasks))
       = length (filter (\<lambda>t. \<not> unit_fails E output_dir pdf_only t) tasks)"
  using bytes_of_iff [of pdf_only E output_dir]
  by (simp add: length_map_filter filter_map comp_def)

lemma count_files:
  "\<not> pdf_only \<Longrightarrow>
     length (List.map_filter file_of (map (unit_result E output_dir pdf_only) tasks))
       = length (filter (\<lambda>t. \<not> unit_fails E output_dir pdf_only t) tasks)"
  using file_of_iff [of pdf_only E output_dir]
  by (simp add: length_map_filter filter_map comp_def)

lemma fetch_phase_converts:
  assumes "fetch_phase E output_dir pdf_only max_workers progress_callback images w
             = (Inr res, w')"
  obtains workers_input where "workers_input_of max_workers = Inr workers_input"
  using assms by (cases "workers_input_of max_workers") (auto simp: fetch_phase_def)

text \<open>The counts of the fetch phase: every descriptor is counted once, as saved when its
  unit succeeds and as failed when its unit fails.\<close>

lemma fetch_phase_counts:
  assumes run: "fetch_phase E output_dir pdf_only max_workers progress_callback images w
             = (Inr (failed, saved_files, page_bytes, saved), w')"
  shows "length failed = length (filter (unit_fails E output_dir pdf_only) (descriptors images))"
    and "saved = length (filter (\<lambda>t. \<not> unit_fails E output_dir pdf_only t) (descriptors images))"
    and "saved + length failed = length images"
proof -
  obtain workers_input where conv: "workers_input_of max_workers = Inr workers_input"
    using run by (rule fetch_phase_converts)
  let ?completed = "map (unit_result E output_dir pdf_only)
               (as_completed (duration E)
                  (nat (effective_workers_of workers_input (length images)))
                  (descriptors images))"
  let ?inorder = "map (unit_result E output_dir pdf_only) (descriptors images)"
  have "fst (fetch_phase E output_dir pdf_only max_workers progress_callback images w)
          = Inr (failed, saved_files, page_bytes, saved)"
    by (simp only: run fst_conv)
  then have "Inr (failed, saved_files, page_bytes, saved)
          = (Inr (List.map_filter failure_of ?completed,
                  map snd (List.map_filter file_of ?inorder),
                  List.map_filter bytes_of ?inorder,
                  (if pdf_only then length (List.map_filter bytes_of ?inorder)
                   else length (List.map_filter file_of ?inorder)))
             :: exn + string list \<times> string list \<times> (nat \<times> string) list \<times> nat)"
    using fetch_phase_result [OF conv, of E output_dir pdf_only progress_callback images w]
    by simp
  then have failed: "failed = List.map_filter failure_of ?completed"
    and saved: "saved = (if pdf_only then length (List.map_filter bytes_of ?inorder)
                         else length (List.map_filter file_of ?inorder))"
    by (simp_all only: sum.inject prod.inject)
  have "length failed = length (filter is_Failure ?completed)"
    by (simp add: failed length_map_filter failure_of_iff)
  also have "\<dots> = length (filter is_Failure ?inorder)"
    by (intro length_filter_mset mset_completed_results)
  also have "\<dots> = length (filter (unit_fails E output_dir pdf_only) (descriptors images))"
    by (simp add: filter_map unit_fails_def [abs_def] comp_def)
  finally show f: "length failed
      = length (filter (unit_fails E output_dir pdf_only) (descriptors images))" .
  show s: "saved
      = length (filter (\<lambda>t. \<not> unit_fails E output_dir pdf_only t) (descriptors images))"
    by (cases pdf_only) (simp_all add: saved count_bytes count_files)
  show "saved + length failed = length images"
    unfolding f s
    using sum_length_filter_compl [of "unit_fails E output_dir pdf_only" "descriptors images"]
    by (simp add: descriptors_def)
qed

subsection \<open>A run that returns a report\<close>

lemma download_manga_report:
  assumes "download_manga E url output_dir create_pdf pdf_filename pdf_only max_workers
             progress_callback w = (Inr r, w')"
  obtains w1 html w2 images failed saved_files page_bytes saved w3 pdf_path pdf_error
  where "makedirs E output_dir w = (Inr (), w1)"
    and "fetch_page E url w1 = (Inr html, w2)"
    and "extract_images html = Inr images"
    and "fetch_phase E output_dir pdf_only max_workers progress_callback images w2
           = (Inr (failed, saved_files, page_bytes, saved), w3)"
    and "document_phase E output_dir create_pdf pdf_filename pdf_only saved saved_files
           page_bytes progress_callback w3 = ((pdf_path, pdf_error), w')"
    and "r = \<lparr>report_total = length images, report_saved = saved, report_failed = failed,
              report_pdf_path = pdf_path, report_pdf_error = pdf_error,
              report_pdf_requested = create_pdf, report_pdf_only = pdf_only\<rparr>"
  using assms unfolding download_manga_def
  by (auto split: prod.splits sum.splits if_splits)

lemma fetch_page_body:
  "fetch_page E url w = (Inr html, w') \<Longrightarrow>
     \<exists>page_response. get_page E url = Inr page_response \<and> html = body page_response"
  by (auto simp: fetch_page_def split: sum.splits option.splits)

text \<open>
  Claim C4. In the report of a run, for every set of extracted descriptors, every mix of
  successes and failures, every requested worker count, every running time of the units
  and both modes: \<open>saved\<close> plus the number of entries of \<open>failed\<close> is \<open>total\<close>, which is the
  number of extracted descriptors; \<open>saved\<close> counts the descriptors whose unit succeeds and
  \<open>failed\<close> has one entry for each of the others.
\<close>

theorem report_counts:
  assumes "download_manga E url output_dir create_pdf pdf_filename pdf_only max_workers
             progress_callback w = (Inr r, w')"
  shows "\<exists>page_response images.
           get_page E url = Inr page_response
           \<and> extract_images (body page_response) = Inr images
           \<and> report_total r = length images
           \<and> report_saved r + length (report_failed r) = report_total r
           \<and> report_saved r
               = length (filter (\<lambda>t. \<not> unit_fails E output_dir pdf_only t) (descriptors images))
           \<and> length (report_failed r)
               = length (filter (unit_fails E output_dir pdf_only) (descriptors images))"
proof -
  from assms obtain w1 html w2 images failed saved_files page_bytes saved w3 pdf_path pdf_error
    where page: "fetch_page E url w1 = (Inr html, w2)"
      and ex: "extract_images html = Inr images"
      and fp: "fetch_phase E output_dir pdf_only max_workers progress_callback images w2
                 = (Inr (failed, saved_files, page_bytes, saved), w3)"
      and r: "r = \<lparr>report_total = length images, report_saved = saved, report_failed = failed,
              report_pdf_path = pdf_path, report_pdf_error = pdf_error,
              report_pdf_requested = create_pdf, report_pdf_only = pdf_only\<rparr>"
    by (rule download_manga_report)
  from fetch_page_body [OF page] obtain page_response
    where resp: "get_page E url = Inr page_response" "html = body page_response"
    by blast
  show ?thesis
    using resp ex fetch_phase_counts [OF fp] by (auto simp: r)
qed

text \<open>A run with two descriptors, of which the second fails, and fifty requested
  workers.\<close>

lemma example_run:
  "download_manga example_env ''http://site/chapter'' ''manga'' True DEFAULT_PDF_NAME False
      (IntValue 50) True empty_world
   = (Inr example_report, example_final_world)"
  by code_simp

theorem report_counts_witness:
  "download_manga example_env ''http://site/chapter'' ''manga'' True DEFAULT_PDF_NAME False
      (IntValue 50) True empty_world
   = (Inr example_report, example_final_world)
   \<and> (\<exists>page_response images.
         get_page example_env ''http://site/chapter'' = Inr page_response
         \<and> extract_images (body page_response) = Inr images
         \<and> report_total example_report = length images
         \<and> report_saved example_report + length (report_failed example_report)
             = report_total example_report
         \<and> report_saved example_report
             = length (filter (\<lambda>t. \<not> unit_fails example_env ''manga'' False t)
                         (descriptors images))
         \<and> length (report_failed example_report)
             = length (filter (unit_fails example_env ''manga'' False) (descriptors images)))"
  using report_counts [OF example_run] example_run by (intro conjI)

section \<open>The order of the pages\<close>

lemma fetch_phase_successes:
  assumes run: "fetch_phase E output_dir pdf_only max_workers progress_callback images w
             = (Inr (failed, saved_files, page_bytes, saved), w')"
  shows "saved_files
           = map snd (List.map_filter file_of (results_in_order E output_dir pdf_only images))"
    and "page_bytes = List.map_filter bytes_of (results_in_order E output_dir pdf_only images)"
proof -
  obtain workers_input where conv: "workers_input_of max_workers = Inr workers_input"
    using run by (rule fetch_phase_converts)
  have "fst (fetch_phase E output_dir pdf_only max_workers progress_callback images w)
          = Inr (failed, saved_files, page_bytes, saved)"
    by (simp only: run fst_conv)
  then show "saved_files
           = map snd (List.map_filter file_of (results_in_order E output_dir pdf_only images))"
    and "page_bytes = List.map_filter bytes_of (results_in_order E output_dir pdf_only images)"
    using fetch_phase_result [OF conv, of E output_dir pdf_only progress_callback images w]
    by (simp_all add: results_in_order_def)
qed

lemma results_in_order_index:
  "map result_index (results_in_order E output_dir pdf_only images) = [1..<Suc (length images)]"
  unfolding results_in_order_def map_result_index by (simp add: descriptors_def)

lemma ascending_files:
  "sorted_wrt (<) (map fst (List.map_filter file_of (results_in_order E output_dir pdf_only images)))"
  unfolding strict_sorted_iff
  by (intro conjI sorted_files distinct_files) (simp_all only: results_in_order_index sorted_upt distinct_upt)

lemma ascending_bytes:
  "sorted_wrt (<) (map fst (List.map_filter bytes_of (results_in_order E output_dir pdf_only images)))"
  unfolding strict_sorted_iff
  by (intro conjI sorted_bytes distinct_bytes) (simp_all only: results_in_order_index sorted_upt distinct_upt)

text \<open>The pages of the document are the pages of the list, in the order of the list.\<close>

lemma load_page_bytes_pages:
  "load_page_bytes E progress_callback total_n xs pages w = (Inr pages', w') \<Longrightarrow>
     \<exists>imgs. map (\<lambda>x. image_open E (snd (snd x))) xs = map Inr imgs
          \<and> pages' = pages @ map prepare_for_pdf imgs"
proof (induction xs arbitrary: pages w)
  case Nil
  then show ?case by simp
next
  case (Cons x xs)
  obtain position page_index image_bytes where x: "x = (position, page_index, image_bytes)"
    by (cases x) auto
  from Cons.prems obtain img where img: "image_open E image_bytes = Inr img"
    by (cases "image_open E image_bytes") (auto simp: x Let_def split: if_splits)
  with Cons.prems have "load_page_bytes E progress_callback total_n xs
      (pages @ [prepare_for_pdf img])
      (notify progress_callback (PdfAddPage position total_n page_index) w) = (Inr pages', w')"
    by (simp add: x Let_def)
  from Cons.IH [OF this] obtain imgs
    where "map (\<lambda>x. image_open E (snd (snd x))) xs = map Inr imgs"
      and "pages' = (pages @ [prepare_for_pdf img]) @ map prepare_for_pdf imgs"
    by blast
  then have "map (\<lambda>x. image_open E (snd (snd x))) (x # xs) = map Inr (img # imgs)
      \<and> pages' = pages @ map prepare_for_pdf (img # imgs)"
    by (simp add: x img)
  then show ?case by blast
qed

lemma map_over_enumerate: "map (\<lambda>x. g (snd x)) (List.enumerate n xs) = map g xs"
  by (induction xs arbitrary: n) auto

lemma save_pdf_pages_document:
  "save_pdf_pages E pages pdf_path w = (Inr u, w') \<Longrightarrow>
     map_of (files w') pdf_path = Some (pdf_bytes E pages)"
  by (auto simp: save_pdf_pages_def log_io_def update_conv' split: list.splits option.splits)

lemma create_pdf_from_page_bytes_document:
  assumes "create_pdf_from_page_bytes E pages_by_index pdf_path progress_callback w = (Inr u, w')"
  shows "\<exists>imgs. map (image_open E) (map snd pages_by_index) = map Inr imgs
          \<and> map_of (files w') pdf_path = Some (pdf_bytes E (map prepare_for_pdf imgs))"
proof -
  from assms obtain pages w1
    where load: "load_page_bytes E progress_callback (length pages_by_index)
                   (List.enumerate 1 pages_by_index) [] w = (Inr pages, w1)"
      and save: "save_pdf_pages E pages pdf_path w1 = (Inr u, w')"
    by (auto simp: create_pdf_from_page_bytes_def split: if_splits prod.splits sum.splits)
  from load_page_bytes_pages [OF load] obtain imgs
    where imgs: "map (\<lambda>x. image_open E (snd (snd x))) (List.enumerate 1 pages_by_index)
                   = map Inr imgs"
      and pages: "pages = map prepare_for_pdf imgs"
    by auto
  have "map (image_open E) (map snd pages_by_index) = map Inr imgs"
    using imgs map_over_enumerate [of "\<lambda>y. image_open E (snd y)" 1 pages_by_index]
    by (simp add: comp_def)
  with save_pdf_pages_document [OF save] pages show ?thesis
    by blast
qed

text \<open>The same for \<open>create_pdf_from_images\<close>: the pages are the decoded files of the list,
  in the order of the list. Reading a file changes no file.\<close>

lemma open_image_file_files:
  "files w1 = files w \<Longrightarrow> fst (open_image_file E image_path w1) = fst (open_image_file E image_path w)"
  by (simp add: open_image_file_def split: option.splits)

lemma files_open_image_file: "files (snd (open_image_file E image_path w)) = files w"
  by (simp add: open_image_file_def log_io_def split: option.splits)

lemma files_notify: "files (notify progress_callback msg w) = files w"
  by (simp add: notify_def)

lemma load_image_files_pages:
  "load_image_files E progress_callback total_n xs pages w = (Inr pages', w') \<Longrightarrow>
   files w = files w0 \<Longrightarrow>
     \<exists>imgs. map (\<lambda>x. fst (open_image_file E (snd x) w0)) xs = map Inr imgs
          \<and> pages' = pages @ map prepare_for_pdf imgs
          \<and> files w' = files w0"
proof (induction xs arbitrary: pages w)
  case Nil
  then show ?case by simp
next
  case (Cons x xs)
  obtain index image_path where x: "x = (index, image_path)"
    by (cases x) auto
  let ?w1 = "notify progress_callback (PdfAddFile index total_n (basename image_path)) w"
  obtain res w2 where op: "open_image_file E image_path ?w1 = (res, w2)"
    by (cases "open_image_file E image_path ?w1") auto
  have f1: "files ?w1 = files w0"
    by (simp add: files_notify Cons.prems(2))
  have "files w2 = files ?w1"
    using files_open_image_file [of E image_path ?w1] by (simp add: op)
  with f1 have f2: "files w2 = files w0"
    by simp
  have "res = fst (open_image_file E image_path w0)"
    using open_image_file_files [OF f1, of E image_path] by (simp add: op)
  moreover from Cons.prems(1) obtain img where img: "res = Inr img"
    by (cases res) (auto simp: x op Let_def split: if_splits)
  ultimately have r0: "fst (open_image_file E image_path w0) = Inr img"
    by simp
  from Cons.prems(1) have "load_image_files E progress_callback total_n xs
      (pages @ [prepare_for_pdf img]) w2 = (Inr pages', w')"
    by (simp add: x op img Let_def)
  from Cons.IH [OF this f2] obtain imgs
    where "map (\<lambda>x. fst (open_image_file E (snd x) w0)) xs = map Inr imgs"
      and "pages' = (pages @ [prepare_for_pdf img]) @ map prepare_for_pdf imgs"
      and "files w' = files w0"
    by blast
  then have "map (\<lambda>x. fst (open_image_file E (snd x) w0)) (x # xs) = map Inr (img # imgs)
      \<and> pages' = pages @ map prepare_for_pdf (img # imgs)
      \<and> files w' = files w0"
    by (simp add: x r0)
  then show ?case by blast
qed

lemma create_pdf_from_images_document:
  assumes "create_pdf_from_images E image_paths pdf_path progress_callback w = (Inr u, w')"
  shows "\<exists>imgs. map (\<lambda>f. fst (open_image_file E f w)) image_paths = map Inr imgs
          \<and> map_of (files w') pdf_path = Some (pdf_bytes E (map prepare_for_pdf imgs))"
proof -
  from assms obtain pages w1
    where load: "load_image_files E progress_callback (length image_paths)
                   (List.enumerate 1 image_paths) [] w = (Inr pages, w1)"
      and save: "save_pdf_pages E pages pdf_path w1 = (Inr u, w')"
    by (auto simp: create_pdf_from_images_def split: if_splits prod.splits sum.splits)
  from load_image_files_pages [OF load refl] obtain imgs
    where imgs: "map (\<lambda>x. fst (open_image_file E (snd x) w)) (List.enumerate 1 image_paths)
                   = map Inr imgs"
      and pages: "pages = map prepare_for_pdf imgs"
    by auto
  have "map (\<lambda>f. fst (open_image_file E f w)) image_paths = map Inr imgs"
    using imgs map_over_enumerate [of "\<lambda>f. fst (open_image_file E f w)" 1 image_paths]
    by simp
  with save_pdf_pages_document [OF save] pages show ?thesis
    by blast
qed

text \<open>A document phase that reports a path and no error has called the assembler of the
  mode, on the list of the mode, and the assembler has returned.\<close>

lemma document_phase_assembles:
  assumes "document_phase E output_dir create_pdf pdf_filename pdf_only saved saved_files
             page_bytes progress_callback w = ((Some p, None), w')"
  shows "(if pdf_only
          then create_pdf_from_page_bytes E page_bytes p progress_callback
                 (notify progress_callback AssemblingPdf w)
          else create_pdf_from_images E saved_files p progress_callback
                 (notify progress_callback AssemblingPdf w)) = (Inr (), w')"
  using assms
  by (auto simp: document_phase_def Let_def split: if_splits prod.splits sum.splits)

lemma document_phase_document:
  assumes "document_phase E output_dir create_pdf pdf_filename pdf_only saved saved_files
             page_bytes progress_callback w = ((Some p, None), w')"
  shows "\<exists>imgs. (if pdf_only then map (image_open E) (map snd page_bytes)
                 else map (\<lambda>f. fst (open_image_file E f w)) saved_files) = map Inr imgs
          \<and> map_of (files w') p = Some (pdf_bytes E (map prepare_for_pdf imgs))"
proof (cases pdf_only)
  case True
  with document_phase_assembles [OF assms]
  have "create_pdf_from_page_bytes E page_bytes p progress_callback
          (notify progress_callback AssemblingPdf w) = (Inr (), w')"
    by simp
  from create_pdf_from_page_bytes_document [OF this] True show ?thesis
    by simp
next
  case False
  with document_phase_assembles [OF assms]
  have "create_pdf_from_images E saved_files p progress_callback
          (notify progress_callback AssemblingPdf w) = (Inr (), w')"
    by simp
  from create_pdf_from_images_document [OF this] obtain imgs
    where "map (\<lambda>f. fst (open_image_file E f (notify progress_callback AssemblingPdf w)))
             saved_files = map Inr imgs"
      and d: "map_of (files w') p = Some (pdf_bytes E (map prepare_for_pdf imgs))"
    by blast
  then have "map (\<lambda>f. fst (open_image_file E f w)) saved_files = map Inr imgs"
    using open_image_file_files [of "notify progress_callback AssemblingPdf w" w E]
    by (simp add: files_notify)
  with d False show ?thesis
    by auto
qed

text \<open>
  Claim C5. Whatever the results of the units and whatever the order \<open>tasks\<close> in which they
  complete (any arrangement of the descriptors, the reversed one included), the collation
  yields the successful units in the order of the descriptors. And in every run of
  \<open>download_manga\<close> that reports a document path and no error, the fetch phase has returned
  the saved files and the page contents of the successful units in strictly ascending
  order of index, the assembler of the mode (\<open>create_pdf_from_page_bytes\<close> in PDF-only mode,
  \<open>create_pdf_from_images\<close> otherwise) has been called on that list, and the document at
  the reported path consists of the decoded pages of that list, in that order.
\<close>

theorem document_pages_ascending:
  "(mset tasks = mset (descriptors images0) \<longrightarrow>
      (\<exists>failed saved.
          collate pdf_only
            (fst (collect E output_dir pdf_only progress_callback total_n tasks ([], [], [], 0) w0))
          = Inr (failed,
                 map snd (List.map_filter file_of (results_in_order E output_dir pdf_only images0)),
                 List.map_filter bytes_of (results_in_order E output_dir pdf_only images0),
                 saved)))
   \<and> (download_manga E url output_dir create_pdf pdf_filename pdf_only max_workers
          progress_callback w = (Inr r, w')
        \<and> report_pdf_path r = Some p \<and> report_pdf_error r = None \<longrightarrow>
      (\<exists>page_response images failed saved w3 imgs.
          get_page E url = Inr page_response
          \<and> extract_images (body page_response) = Inr images
          \<and> fetch_phase E output_dir pdf_only max_workers progress_callback images
               (snd (fetch_page E url (snd (makedirs E output_dir w))))
             = (Inr (failed,
                     map snd (List.map_filter file_of
                                (results_in_order E output_dir pdf_only images)),
                     List.map_filter bytes_of (results_in_order E output_dir pdf_only images),
                     saved), w3)
          \<and> sorted_wrt (<)
               (map fst (List.map_filter file_of (results_in_order E output_dir pdf_only images)))
          \<and> sorted_wrt (<)
               (map fst (List.map_filter bytes_of (results_in_order E output_dir pdf_only images)))
          \<and> (if pdf_only
              then create_pdf_from_page_bytes E
                     (List.map_filter bytes_of (results_in_order E output_dir pdf_only images))
                     p progress_callback (notify progress_callback AssemblingPdf w3)
              else create_pdf_from_images E
                     (map snd (List.map_filter file_of
                                 (results_in_order E output_dir pdf_only images)))
                     p progress_callback (notify progress_callback AssemblingPdf w3))
             = (Inr (), w')
          \<and> (if pdf_only
              then map (image_open E)
                     (map snd (List.map_filter bytes_of
                                 (results_in_order E output_dir pdf_only images)))
              else map (\<lambda>f. fst (open_image_file E f w3))
                     (map snd (List.map_filter file_of
                                 (results_in_order E output_dir pdf_only images))))
             = map Inr imgs
          \<and> map_of (files w') p = Some (pdf_bytes E (map prepare_for_pdf imgs))))"
proof (intro conjI impI)
  assume "mset tasks = mset (descriptors images0)"
  from collate_any_order [OF this, of pdf_only E output_dir progress_callback total_n w0]
  show "\<exists>failed saved.
          collate pdf_only
            (fst (collect E output_dir pdf_only progress_callback total_n tasks ([], [], [], 0) w0))
          = Inr (failed,
                 map snd (List.map_filter file_of (results_in_order E output_dir pdf_only images0)),
                 List.map_filter bytes_of (results_in_order E output_dir pdf_only images0),
                 saved)"
    by blast
next
  assume a: "download_manga E url output_dir create_pdf pdf_filename pdf_only max_workers
          progress_callback w = (Inr r, w')
        \<and> report_pdf_path r = Some p \<and> report_pdf_error r = None"
  then have run: "download_manga E url output_dir create_pdf pdf_filename pdf_only max_workers
          progress_callback w = (Inr r, w')"
    by (rule conjunct1)
  from run obtain w1 html w2 images failed saved_files page_bytes saved w3 pdf_path pdf_error
    where mk: "makedirs E output_dir w = (Inr (), w1)"
      and page: "fetch_page E url w1 = (Inr html, w2)"
      and ex: "extract_images html = Inr images"
      and fp: "fetch_phase E output_dir pdf_only max_workers progress_callback images w2
                 = (Inr (failed, saved_files, page_bytes, saved), w3)"
      and dp: "document_phase E output_dir create_pdf pdf_filename pdf_only saved saved_files
                 page_bytes progress_callback w3 = ((pdf_path, pdf_error), w')"
      and r: "r = \<lparr>report_total = length images, report_saved = saved, report_failed = failed,
              report_pdf_path = pdf_path, report_pdf_error = pdf_error,
              report_pdf_requested = create_pdf, report_pdf_only = pdf_only\<rparr>"
    by (rule download_manga_report)
  let ?files = "map snd (List.map_filter file_of (results_in_order E output_dir pdf_only images))"
  let ?bytes = "List.map_filter bytes_of (results_in_order E output_dir pdf_only images)"
  from a r have pp: "pdf_path = Some p" "pdf_error = None"
    by simp_all
  from fetch_page_body [OF page] obtain page_response
    where resp: "get_page E url = Inr page_response" "html = body page_response"
    by blast
  have w2: "snd (fetch_page E url (snd (makedirs E output_dir w))) = w2"
    by (simp add: mk page)
  from fetch_phase_successes [OF fp] have sf: "saved_files = ?files" and pb: "page_bytes = ?bytes"
    by simp_all
  have c1: "extract_images (body page_response) = Inr images"
    using ex resp(2) by simp
  have c2: "fetch_phase E output_dir pdf_only max_workers progress_callback images
               (snd (fetch_page E url (snd (makedirs E output_dir w))))
             = (Inr (failed, ?files, ?bytes, saved), w3)"
    unfolding w2 using fp by (simp only: sf pb)
  have dp': "document_phase E output_dir create_pdf pdf_filename pdf_only saved ?files
                 ?bytes progress_callback w3 = ((Some p, None), w')"
    using dp by (simp only: sf pb pp)
  from document_phase_assembles [OF dp']
  have c5: "(if pdf_only
              then create_pdf_from_page_bytes E ?bytes
                     p progress_callback (notify progress_callback AssemblingPdf w3)
              else create_pdf_from_images E ?files
                     p progress_callback (notify progress_callback AssemblingPdf w3))
             = (Inr (), w')" .
  from document_phase_document [OF dp'] obtain imgs
    where c6: "(if pdf_only then map (image_open E) (map snd ?bytes)
                 else map (\<lambda>f. fst (open_image_file E f w3)) ?files) = map Inr imgs"
      and c7: "map_of (files w') p = Some (pdf_bytes E (map prepare_for_pdf imgs))"
    by blast
  show "\<exists>page_response images failed saved w3 imgs.
          get_page E url = Inr page_response
          \<and> extract_images (body page_response) = Inr images
          \<and> fetch_phase E output_dir pdf_only max_workers progress_callback images
               (snd (fetch_page E url (snd (makedirs E output_dir w))))
             = (Inr (failed,
                     map snd (List.map_filter file_of
                                (results_in_order E output_dir pdf_only images)),
                     List.map_filter bytes_of (results_in_order E output_dir pdf_only images),
                     saved), w3)
          \<and> sorted_wrt (<)
               (map fst (List.map_filter file_of (results_in_order E output_dir pdf_only images)))
          \<and> sorted_wrt (<)
               (map fst (List.map_filter bytes_of (results_in_order E output_dir pdf_only images)))
          \<and> (if pdf_only
              then create_pdf_from_page_bytes E
                     (List.map_filter bytes_of (results_in_order E output_dir pdf_only images))
                     p progress_callback (notify progress_callback AssemblingPdf w3)
              else create_pdf_from_images E
                     (map snd (List.map_filter file_of
                                 (results_in_order E output_dir pdf_only images)))
                     p progress_callback (notify progress_callback AssemblingPdf w3))
             = (Inr (), w')
          \<and> (if pdf_only
              then map (image_open E)
                     (map snd (List.map_filter bytes_of
                                 (results_in_order E output_dir pdf_only images)))
              else map (\<lambda>f. fst (open_image_file E f w3))
                     (map snd (List.map_filter file_of
                                 (results_in_order E output_dir pdf_only images))))
             = map Inr imgs
          \<and> map_of (files w') p = Some (pdf_bytes E (map prepare_for_pdf imgs))"
    by (intro exI [of _ page_response] exI [of _ images] exI [of _ failed] exI [of _ saved]
        exI [of _ w3] exI [of _ imgs] conjI resp(1) c1 c2 ascending_files ascending_bytes c5 c6 c7)
qed

text \<open>Two runs on the chapter of the scenario with a server that delivers both images, one
  in each mode, with two workers: the second unit completes before the first, and the
  document has the first page first. And a collation after the reversed completion
  sequence.\<close>

lemma reversed_collation:
  "collate True
     (fst (collect online_env ''manga'' True True 2
             (rev (descriptors [(''http://cdn/a'', ''p1.jpg''), (''http://cdn/b'', ''p2.jpg'')]))
             ([], [], [], 0) empty_world))
   = Inr ([], [], [(1, ''img1''), (2, ''img2'')], 2)"
  by code_simp

lemma reversed_completion:
  "as_completed (duration online_env) 2
     (descriptors [(''http://cdn/a'', ''p1.jpg''), (''http://cdn/b'', ''p2.jpg'')])
   = rev (descriptors [(''http://cdn/a'', ''p1.jpg''), (''http://cdn/b'', ''p2.jpg'')])"
  by code_simp

lemma online_files_run:
  "download_manga online_env ''http://site/chapter'' ''manga'' True DEFAULT_PDF_NAME False
      (IntValue 50) True empty_world
   = (Inr (online_report False), online_files_world)"
  by code_simp

lemma online_bytes_run:
  "download_manga online_env ''http://site/chapter'' ''manga'' True DEFAULT_PDF_NAME True
      (IntValue 50) True empty_world
   = (Inr (online_report True), online_bytes_world)"
  by code_simp

lemma online_page:
  "get_page online_env ''http://site/chapter'' = Inr page_response \<Longrightarrow>
   extract_images (body page_response) = Inr images \<Longrightarrow>
     images = [(''http://cdn/a'', ''p1.jpg''), (''http://cdn/b'', ''p2.jpg'')]"
proof -
  assume "get_page online_env ''http://site/chapter'' = Inr page_response"
  then have "body page_response = scenario_double_quotes"
    by (auto simp: online_env_def example_env_def)
  moreover have "extract_images scenario_double_quotes
                   = Inr [(''http://cdn/a'', ''p1.jpg''), (''http://cdn/b'', ''p2.jpg'')]"
    by code_simp
  moreover assume "extract_images (body page_response) = Inr images"
  ultimately show ?thesis
    by simp
qed

lemma online_files_in_order:
  "map snd (List.map_filter file_of
      (results_in_order online_env ''manga'' False
         [(''http://cdn/a'', ''p1.jpg''), (''http://cdn/b'', ''p2.jpg'')]))
   = [''manga/001.jpg'', ''manga/002.jpg'']"
  by code_simp

lemma online_bytes_in_order:
  "List.map_filter bytes_of
      (results_in_order online_env ''manga'' True
         [(''http://cdn/a'', ''p1.jpg''), (''http://cdn/b'', ''p2.jpg'')])
   = [(1, ''img1''), (2, ''img2'')]"
  by code_simp

theorem document_pages_ascending_witness:
  "mset (rev (descriptors [(''http://cdn/a'', ''p1.jpg''), (''http://cdn/b'', ''p2.jpg'')]))
     = mset (descriptors [(''http://cdn/a'', ''p1.jpg''), (''http://cdn/b'', ''p2.jpg'')])
   \<and> collate True
       (fst (collect online_env ''manga'' True True 2
               (rev (descriptors [(''http://cdn/a'', ''p1.jpg''), (''http://cdn/b'', ''p2.jpg'')]))
               ([], [], [], 0) empty_world))
       = Inr ([], [], [(1, ''img1''), (2, ''img2'')], 2)
   \<and> [(1, ''img1''), (2, ''img2'')]
       = List.map_filter bytes_of
           (results_in_order online_env ''manga'' True
              [(''http://cdn/a'', ''p1.jpg''), (''http://cdn/b'', ''p2.jpg'')])
   \<and> as_completed (duration online_env) 2
        (descriptors [(''http://cdn/a'', ''p1.jpg''), (''http://cdn/b'', ''p2.jpg'')])
       = rev (descriptors [(''http://cdn/a'', ''p1.jpg''), (''http://cdn/b'', ''p2.jpg'')])
   \<and> download_manga online_env ''http://site/chapter'' ''manga'' True DEFAULT_PDF_NAME False
        (IntValue 50) True empty_world
       = (Inr (online_report False), online_files_world)
   \<and> report_pdf_path (online_report False) = Some ''manga/chapter.pdf''
   \<and> report_pdf_error (online_report False) = None
   \<and> (\<exists>w3 imgs.
         create_pdf_from_images online_env [''manga/001.jpg'', ''manga/002.jpg'']
           ''manga/chapter.pdf'' True (notify True AssemblingPdf w3)
          = (Inr (), online_files_world)
         \<and> map (\<lambda>f. fst (open_image_file online_env f w3))
              [''manga/001.jpg'', ''manga/002.jpg''] = map Inr imgs
         \<and> map_of (files online_files_world) ''manga/chapter.pdf''
             = Some (pdf_bytes online_env (map prepare_for_pdf imgs)))
   \<and> map_of (files online_files_world) ''manga/chapter.pdf'' = Some ''img1img2''
   \<and> download_manga online_env ''http://site/chapter'' ''manga'' True DEFAULT_PDF_NAME True
        (IntValue 50) True empty_world
       = (Inr (online_report True), online_bytes_world)
   \<and> report_pdf_path (online_report True) = Some ''manga/chapter.pdf''
   \<and> report_pdf_error (online_report True) = None
   \<and> (\<exists>w3 imgs.
         create_pdf_from_page_bytes online_env [(1, ''img1''), (2, ''img2'')]
           ''manga/chapter.pdf'' True (notify True AssemblingPdf w3)
          = (Inr (), online_bytes_world)
         \<and> map (image_open online_env) (map snd [(1::nat, ''img1''), (2, ''img2'')])
             = map Inr imgs
         \<and> map_of (files online_bytes_world) ''manga/chapter.pdf''
             = Some (pdf_bytes online_env (map prepare_for_pdf imgs)))
   \<and> map_of (files online_bytes_world) ''manga/chapter.pdf'' = Some ''img1img2''"
proof -
  let ?two = "[(''http://cdn/a'', ''p1.jpg''), (''http://cdn/b'', ''p2.jpg'')]"
  have perm: "mset (rev (descriptors ?two)) = mset (descriptors ?two)"
    by (rule mset_rev)
  have pf: "report_pdf_path (online_report False) = Some ''manga/chapter.pdf''"
    and ef: "report_pdf_error (online_report False) = None"
    and pb: "report_pdf_path (online_report True) = Some ''manga/chapter.pdf''"
    and eb: "report_pdf_error (online_report True) = None"
    by (simp_all add: online_report_def)
  have df: "map_of (files online_files_world) ''manga/chapter.pdf'' = Some ''img1img2''"
    by (simp add: online_files_world_def)
  have db: "map_of (files online_bytes_world) ''manga/chapter.pdf'' = Some ''img1img2''"
    by (simp add: online_bytes_world_def)
  note t1 = document_pages_ascending
    [of "rev (descriptors ?two)" ?two True online_env "''manga''" True 2 empty_world,
     THEN conjunct1, THEN mp, OF perm]
  from t1 reversed_collation
  have a: "[(1, ''img1''), (2, ''img2'')]
       = List.map_filter bytes_of (results_in_order online_env ''manga'' True ?two)"
    by simp
  note tf = document_pages_ascending
    [of _ _ False online_env "''manga''" True _ _ "''http://site/chapter''" True
        DEFAULT_PDF_NAME "IntValue 50" empty_world "online_report False" online_files_world
        "''manga/chapter.pdf''",
     THEN conjunct2, THEN mp, OF conjI [OF online_files_run conjI [OF pf ef]]]
  from tf obtain page_response images failed saved w3 imgs
    where "get_page online_env ''http://site/chapter'' = Inr page_response"
      and "extract_images (body page_response) = Inr images"
      and f5: "(if False
              then create_pdf_from_page_bytes online_env
                     (List.map_filter bytes_of (results_in_order online_env ''manga'' False images))
                     ''manga/chapter.pdf'' True (notify True AssemblingPdf w3)
              else create_pdf_from_images online_env
                     (map snd (List.map_filter file_of
                                 (results_in_order online_env ''manga'' False images)))
                     ''manga/chapter.pdf'' True (notify True AssemblingPdf w3))
             = (Inr (), online_files_world)"
      and f6: "(if False
              then map (image_open online_env)
                     (map snd (List.map_filter bytes_of
                                 (results_in_order online_env ''manga'' False images)))
              else map (\<lambda>f. fst (open_image_file online_env f w3))
                     (map snd (List.map_filter file_of
                                 (results_in_order online_env ''manga'' False images))))
             = map Inr imgs"
      and f7: "map_of (files online_files_world) ''manga/chapter.pdf''
                 = Some (pdf_bytes online_env (map prepare_for_pdf imgs))"
    by blast
  then have "images = ?two"
    by (intro online_page)
  with f5 f6 f7 have
    "create_pdf_from_images online_env [''manga/001.jpg'', ''manga/002.jpg'']
           ''manga/chapter.pdf'' True (notify True AssemblingPdf w3)
          = (Inr (), online_files_world)
         \<and> map (\<lambda>f. fst (open_image_file online_env f w3))
              [''manga/001.jpg'', ''manga/002.jpg''] = map Inr imgs
         \<and> map_of (files online_files_world) ''manga/chapter.pdf''
             = Some (pdf_bytes online_env (map prepare_for_pdf imgs))"
    by (simp add: online_files_in_order)
  then have cf: "\<exists>w3 imgs.
         create_pdf_from_images online_env [''manga/001.jpg'', ''manga/002.jpg'']
           ''manga/chapter.pdf'' True (notify True AssemblingPdf w3)
          = (Inr (), online_files_world)
         \<and> map (\<lambda>f. fst (open_image_file online_env f w3))
              [''manga/001.jpg'', ''manga/002.jpg''] = map Inr imgs
         \<and> map_of (files online_files_world) ''manga/chapter.pdf''
             = Some (pdf_bytes online_env (map prepare_for_pdf imgs))"
    by (intro exI)
  note tb = document_pages_ascending
    [of _ _ True online_env "''manga''" True _ _ "''http://site/chapter''" True
        DEFAULT_PDF_NAME "IntValue 50" empty_world "online_report True" online_bytes_world
        "''manga/chapter.pdf''",
     THEN conjunct2, THEN mp, OF conjI [OF online_bytes_run conjI [OF pb eb]]]
  from tb obtain page_response' images' failed' saved' w3' imgs'
    where "get_page online_env ''http://site/chapter'' = Inr page_response'"
      and "extract_images (body page_response') = Inr images'"
      and b5: "(if True
              then create_pdf_from_page_bytes online_env
                     (List.map_filter bytes_of (results_in_order online_env ''manga'' True images'))
                     ''manga/chapter.pdf'' True (notify True AssemblingPdf w3')
              else create_pdf_from_images online_env
                     (map snd (List.map_filter file_of
                                 (results_in_order online_env ''manga'' True images')))
                     ''manga/chapter.pdf'' True (notify True AssemblingPdf w3'))
             = (Inr (), online_bytes_world)"
      and b6: "(if True
              then map (image_open online_env)
                     (map snd (List.map_filter bytes_of
                                 (results_in_order online_env ''manga'' True images')))
              else map (\<lambda>f. fst (open_image_file online_env f w3'))
                     (map snd (List.map_filter file_of
                                 (results_in_order online_env ''manga'' True images'))))
             = map Inr imgs'"
      and b7: "map_of (files online_bytes_world) ''manga/chapter.pdf''
                 = Some (pdf_bytes online_env (map prepare_for_pdf imgs'))"
    by blast
  then have "images' = ?two"
    by (intro online_page)
  with b5 b6 b7 have
    "create_pdf_from_page_bytes online_env [(1, ''img1''), (2, ''img2'')]
           ''manga/chapter.pdf'' True (notify True AssemblingPdf w3')
          = (Inr (), online_bytes_world)
         \<and> map (image_open online_env) (map snd [(1::nat, ''img1''), (2, ''img2'')])
             = map Inr imgs'
         \<and> map_of (files online_bytes_world) ''manga/chapter.pdf''
             = Some (pdf_bytes online_env (map prepare_for_pdf imgs'))"
    by (simp add: online_bytes_in_order)
  then have cb: "\<exists>w3 imgs.
         create_pdf_from_page_bytes online_env [(1, ''img1''), (2, ''img2'')]
           ''manga/chapter.pdf'' True (notify True AssemblingPdf w3)
          = (Inr (), online_bytes_world)
         \<and> map (image_open online_env) (map snd [(1::nat, ''img1''), (2, ''img2'')])
             = map Inr imgs
         \<and> map_of (files online_bytes_world) ''manga/chapter.pdf''
             = Some (pdf_bytes online_env (map prepare_for_pdf imgs))"
    by (intro exI)
  show ?thesis
    by (intro conjI perm reversed_collation a reversed_completion online_files_run pf ef cf df
        online_bytes_run pb eb cb db)
qed

section \<open>The document fields of the report\<close>

subsection \<open>Which calls write a document\<close>

lemma saved_pdfs_log_io:
  "saved_pdfs (log_io ev w)
     = (case saved_pdf ev of None \<Rightarrow> saved_pdfs w | Some p \<Rightarrow> saved_pdfs w @ [p])"
  by (simp add: saved_pdfs_def log_io_def List.map_filter_def split: option.splits)

lemma saved_pdfs_notify: "saved_pdfs (notify progress_callback msg w) = saved_pdfs w"
  by (simp add: saved_pdfs_def notify_def)

lemma saved_pdfs_files: "saved_pdfs (w\<lparr>files := fs\<rparr>) = saved_pdfs w"
  by (simp add: saved_pdfs_def)

lemma saved_pdfs_dirs: "saved_pdfs (w\<lparr>dirs := ds\<rparr>) = saved_pdfs w"
  by (simp add: saved_pdfs_def)

lemmas saved_pdfs_simps = saved_pdfs_log_io saved_pdfs_notify saved_pdfs_files saved_pdfs_dirs

lemma saved_pdfs_makedirs: "saved_pdfs (snd (makedirs E output_dir w)) = saved_pdfs w"
  by (simp add: makedirs_def saved_pdfs_simps split: option.splits)

lemma saved_pdfs_fetch_page: "saved_pdfs (snd (fetch_page E url w)) = saved_pdfs w"
  by (simp add: fetch_page_def saved_pdfs_simps split: sum.splits option.splits)

lemma saved_pdfs_download_one:
  "saved_pdfs (snd (download_one E output_dir pdf_only task w)) = saved_pdfs w"
  by (simp add: download_one_def Let_def saved_pdfs_simps
      split: prod.splits sum.splits option.splits)

lemma saved_pdfs_collect:
  "saved_pdfs (snd (collect E output_dir pdf_only progress_callback total_n tasks acc w))
     = saved_pdfs w"
proof (induction tasks arbitrary: acc w)
  case Nil
  show ?case by simp
next
  case (Cons task rest)
  obtain failed sbi pbi d where acc: "acc = (failed, sbi, pbi, d)"
    by (cases acc) auto
  obtain r w1 where d1: "download_one E output_dir pdf_only task w = (r, w1)"
    by (cases "download_one E output_dir pdf_only task w") auto
  then have w1: "saved_pdfs w1 = saved_pdfs w"
    using saved_pdfs_download_one [of E output_dir pdf_only task w] by simp
  show ?case
    by (cases r) (simp_all add: acc d1 Cons.IH saved_pdfs_notify w1)
qed

lemma saved_pdfs_fetch_phase:
  "saved_pdfs (snd (fetch_phase E output_dir pdf_only max_workers progress_callback images w))
     = saved_pdfs w"
proof (cases "workers_input_of max_workers")
  case (Inl exc)
  then show ?thesis by (simp add: fetch_phase_def)
next
  case (Inr workers_input)
  let ?w1 = "notify progress_callback
               (ParallelDownload (effective_workers_of workers_input (length images))
                  (length images)) w"
  let ?c = "collect E output_dir pdf_only progress_callback (length images)
              (as_completed (duration E)
                 (nat (effective_workers_of workers_input (length images)))
                 (descriptors images))
              ([], [], [], 0) ?w1"
  have "saved_pdfs (snd ?c) = saved_pdfs w"
    by (simp only: saved_pdfs_collect saved_pdfs_notify)
  then show ?thesis
    by (cases ?c) (auto simp: fetch_phase_def Inr Let_def saved_pdfs_notify
        split: prod.splits sum.splits)
qed

lemma saved_pdfs_open_image_file:
  "saved_pdfs (snd (open_image_file E image_path w)) = saved_pdfs w"
  by (simp add: open_image_file_def saved_pdfs_simps split: option.splits)

lemma saved_pdfs_load_image_files:
  "saved_pdfs (snd (load_image_files E progress_callback total_n xs pages w)) = saved_pdfs w"
proof (induction xs arbitrary: pages w)
  case Nil
  show ?case by simp
next
  case (Cons x xs)
  obtain index image_path where x: "x = (index, image_path)"
    by (cases x) auto
  let ?w1 = "notify progress_callback (PdfAddFile index total_n (basename image_path)) w"
  obtain r w2 where o: "open_image_file E image_path ?w1 = (r, w2)"
    by (cases "open_image_file E image_path ?w1") auto
  then have w2: "saved_pdfs w2 = saved_pdfs w"
    using saved_pdfs_open_image_file [of E image_path ?w1] by (simp add: saved_pdfs_notify)
  show ?case
    by (cases r) (simp_all add: x Let_def o w2 Cons.IH)
qed

lemma saved_pdfs_load_page_bytes:
  "saved_pdfs (snd (load_page_bytes E progress_callback total_n xs pages w)) = saved_pdfs w"
proof (induction xs arbitrary: pages w)
  case Nil
  show ?case by simp
next
  case (Cons x xs)
  obtain position page_index image_bytes where x: "x = (position, page_index, image_bytes)"
    by (cases x) auto
  show ?case
    by (simp add: x Let_def Cons.IH saved_pdfs_simps split: prod.splits sum.splits)
qed

lemma saved_pdfs_save_pdf_pages:
  "saved_pdfs (snd (save_pdf_pages E pages pdf_path w))
     = (case fst (save_pdf_pages E pages pdf_path w) of
          Inl exc \<Rightarrow> saved_pdfs w
        | Inr u \<Rightarrow> saved_pdfs w @ [pdf_path])"
  by (simp add: save_pdf_pages_def saved_pdfs_simps split: list.splits option.splits)

lemma saved_pdfs_create_pdf_from_images:
  "saved_pdfs (snd (create_pdf_from_images E image_paths pdf_path progress_callback w))
     = (case fst (create_pdf_from_images E image_paths pdf_path progress_callback w) of
          Inl exc \<Rightarrow> saved_pdfs w
        | Inr u \<Rightarrow> saved_pdfs w @ [pdf_path])"
proof -
  let ?l = "load_image_files E progress_callback (length image_paths)
              (List.enumerate 1 image_paths) [] w"
  have "saved_pdfs (snd ?l) = saved_pdfs w"
    by (rule saved_pdfs_load_image_files)
  then show ?thesis
    using saved_pdfs_save_pdf_pages [of E _ pdf_path "snd ?l"]
    by (cases ?l) (auto simp: create_pdf_from_images_def split: sum.splits)
qed

lemma saved_pdfs_create_pdf_from_page_bytes:
  "saved_pdfs (snd (create_pdf_from_page_bytes E pages_by_index pdf_path progress_callback w))
     = (case fst (create_pdf_from_page_bytes E pages_by_index pdf_path progress_callback w) of
          Inl exc \<Rightarrow> saved_pdfs w
        | Inr u \<Rightarrow> saved_pdfs w @ [pdf_path])"
proof -
  let ?l = "load_page_bytes E progress_callback (length pages_by_index)
              (List.enumerate 1 pages_by_index) [] w"
  have "saved_pdfs (snd ?l) = saved_pdfs w"
    by (rule saved_pdfs_load_page_bytes)
  then show ?thesis
    using saved_pdfs_save_pdf_pages [of E _ pdf_path "snd ?l"]
    by (cases ?l) (auto simp: create_pdf_from_page_bytes_def split: sum.splits)
qed

text \<open>The document phase: the path is set when a document is requested, the error when
  a requested document has not been written.\<close>

lemma document_phase_fields:
  assumes "document_phase E output_dir create_pdf pdf_filename pdf_only saved saved_files
             page_bytes progress_callback w = ((pdf_path, pdf_error), w')"
  shows "(pdf_path \<noteq> None) = create_pdf"
    and "(pdf_error \<noteq> None) = (create_pdf \<and> saved_pdfs w' = saved_pdfs w)"
    and "saved_pdfs w' \<noteq> saved_pdfs w \<Longrightarrow>
           \<exists>p. pdf_path = Some p \<and> saved_pdfs w' = saved_pdfs w @ [p]"
proof -
  let ?path = "path_join output_dir
                 (if \<not> endswith (lower pdf_filename) ''.pdf''
                  then pdf_filename @ ''.pdf'' else pdf_filename)"
  let ?w1 = "notify progress_callback AssemblingPdf w"
  let ?a = "if pdf_only
            then create_pdf_from_page_bytes E page_bytes ?path progress_callback ?w1
            else create_pdf_from_images E saved_files ?path progress_callback ?w1"
  have a: "saved_pdfs (snd ?a)
             = (case fst ?a of Inl exc \<Rightarrow> saved_pdfs w | Inr u \<Rightarrow> saved_pdfs w @ [?path])"
    by (auto simp: saved_pdfs_create_pdf_from_images saved_pdfs_create_pdf_from_page_bytes
        saved_pdfs_notify split: sum.splits)
  have all: "(pdf_path \<noteq> None) = create_pdf
      \<and> (pdf_error \<noteq> None) = (create_pdf \<and> saved_pdfs w' = saved_pdfs w)
      \<and> (saved_pdfs w' \<noteq> saved_pdfs w \<longrightarrow>
           (\<exists>p. pdf_path = Some p \<and> saved_pdfs w' = saved_pdfs w @ [p]))"
  proof (cases "create_pdf \<and> 0 < saved")
    case False
    with assms show ?thesis
      by (auto simp: document_phase_def Let_def split: if_splits)
  next
    case True
    with assms have res: "(case ?a of (Inl exc, w2) \<Rightarrow> ((Some ?path, Some (str_exn exc)), w2)
                            | (Inr u, w2) \<Rightarrow> ((Some ?path, None), w2))
                          = ((pdf_path, pdf_error), w')"
      by (simp add: document_phase_def Let_def)
    obtain ra w2 where a_eq: "?a = (ra, w2)"
      by (cases ?a) auto
    from a have w2: "saved_pdfs w2
             = (case ra of Inl exc \<Rightarrow> saved_pdfs w | Inr u \<Rightarrow> saved_pdfs w @ [?path])"
      by (simp only: a_eq fst_conv snd_conv)
    show ?thesis
    proof (cases ra)
      case (Inl exc)
      with res have "pdf_path = Some ?path" "pdf_error = Some (str_exn exc)" "w' = w2"
        by (simp_all only: a_eq prod.case sum.case prod.inject)
      with w2 Inl True show ?thesis by simp
    next
      case (Inr u)
      with res have "pdf_path = Some ?path" "pdf_error = None" "w' = w2"
        by (simp_all only: a_eq prod.case sum.case prod.inject)
      with w2 Inr True show ?thesis by simp
    qed
  qed
  from all show "(pdf_path \<noteq> None) = create_pdf" by blast
  from all show "(pdf_error \<noteq> None) = (create_pdf \<and> saved_pdfs w' = saved_pdfs w)" by blast
  from all show "saved_pdfs w' \<noteq> saved_pdfs w \<Longrightarrow>
           \<exists>p. pdf_path = Some p \<and> saved_pdfs w' = saved_pdfs w @ [p]" by blast
qed

text \<open>
  Claim C1, as it is stated, fails: in a run in which a document is requested and every
  fetch fails, no document is written, and the report carries the path of the document
  all the same, next to the error.
\<close>

theorem phantom_document_path:
  "fst (download_manga offline_env ''http://site/chapter'' ''manga'' True DEFAULT_PDF_NAME False
          (IntValue 50) True empty_world)
     = Inr \<lparr>report_total = 2, report_saved = 0,
            report_failed = [''http://cdn/bp2.jpg (timed out)'', ''http://cdn/ap1.jpg (timed out)''],
            report_pdf_path = Some ''manga/chapter.pdf'',
            report_pdf_error = Some msg_no_downloaded,
            report_pdf_requested = True, report_pdf_only = False\<rparr>
   \<and> \<not> document_produced empty_world
         (snd (download_manga offline_env ''http://site/chapter'' ''manga'' True DEFAULT_PDF_NAME
                 False (IntValue 50) True empty_world))"
  by code_simp

text \<open>
  Claim C1, amended. In the report of a run, \<open>pdf_path\<close> is set if and only if a document
  was requested; \<open>pdf_error\<close> is set if and only if a document was requested and none was
  produced; and a document was produced if and only if \<open>pdf_path\<close> is set and \<open>pdf_error\<close>
  is not, in which case the document was written to \<open>pdf_path\<close>.
\<close>

theorem report_document_fields:
  assumes "download_manga E url output_dir create_pdf pdf_filename pdf_only max_workers
             progress_callback w = (Inr r, w')"
  shows "(report_pdf_path r \<noteq> None) = create_pdf
       \<and> (report_pdf_error r \<noteq> None) = (create_pdf \<and> \<not> document_produced w w')
       \<and> document_produced w w'
           = (\<exists>p. report_pdf_path r = Some p \<and> report_pdf_error r = None
                  \<and> saved_pdfs w' = saved_pdfs w @ [p])"
proof -
  from assms obtain w1 html w2 images failed saved_files page_bytes saved w3 pdf_path pdf_error
    where mk: "makedirs E output_dir w = (Inr (), w1)"
      and page: "fetch_page E url w1 = (Inr html, w2)"
      and fp: "fetch_phase E output_dir pdf_only max_workers progress_callback images w2
                 = (Inr (failed, saved_files, page_bytes, saved), w3)"
      and dp: "document_phase E output_dir create_pdf pdf_filename pdf_only saved saved_files
                 page_bytes progress_callback w3 = ((pdf_path, pdf_error), w')"
      and r: "r = \<lparr>report_total = length images, report_saved = saved, report_failed = failed,
              report_pdf_path = pdf_path, report_pdf_error = pdf_error,
              report_pdf_requested = create_pdf, report_pdf_only = pdf_only\<rparr>"
    by (rule download_manga_report)
  have "saved_pdfs w1 = saved_pdfs w"
    using saved_pdfs_makedirs [of E output_dir w] by (simp add: mk)
  moreover have "saved_pdfs w2 = saved_pdfs w1"
    using saved_pdfs_fetch_page [of E url w1] by (simp add: page)
  moreover have "saved_pdfs w3 = saved_pdfs w2"
    using saved_pdfs_fetch_phase [of E output_dir pdf_only max_workers progress_callback images w2]
    by (simp add: fp)
  ultimately have w3: "saved_pdfs w3 = saved_pdfs w"
    by simp
  note f = document_phase_fields [OF dp, unfolded w3]
  have path: "(report_pdf_path r \<noteq> None) = create_pdf"
    using f(1) by (simp add: r)
  have err: "(report_pdf_error r \<noteq> None) = (create_pdf \<and> \<not> document_produced w w')"
    using f(2) by (simp add: r document_produced_def)
  have prod: "document_produced w w'
           = (\<exists>p. report_pdf_path r = Some p \<and> report_pdf_error r = None
                  \<and> saved_pdfs w' = saved_pdfs w @ [p])"
  proof
    assume p: "document_produced w w'"
    then have "saved_pdfs w' \<noteq> saved_pdfs w"
      by (simp add: document_produced_def)
    from f(3) [OF this] obtain q
      where "pdf_path = Some q" "saved_pdfs w' = saved_pdfs w @ [q]"
      by blast
    moreover from err p have "report_pdf_error r = None"
      by auto
    ultimately show "\<exists>p. report_pdf_path r = Some p \<and> report_pdf_error r = None
                  \<and> saved_pdfs w' = saved_pdfs w @ [p]"
      by (simp add: r)
  next
    assume "\<exists>p. report_pdf_path r = Some p \<and> report_pdf_error r = None
                  \<and> saved_pdfs w' = saved_pdfs w @ [p]"
    then show "document_produced w w'"
      by (auto simp: document_produced_def)
  qed
  from path err prod show ?thesis by (intro conjI)
qed

theorem report_document_fields_witness:
  "download_manga example_env ''http://site/chapter'' ''manga'' True DEFAULT_PDF_NAME False
      (IntValue 50) True empty_world
   = (Inr example_report, example_final_world)
   \<and> (report_pdf_path example_report \<noteq> None) = True
   \<and> (report_pdf_error example_report \<noteq> None)
       = (True \<and> \<not> document_produced empty_world example_final_world)
   \<and> document_produced empty_world example_final_world
       = (\<exists>p. report_pdf_path example_report = Some p \<and> report_pdf_error example_report = None
              \<and> saved_pdfs example_final_world = saved_pdfs empty_world @ [p])"
  using report_document_fields [OF example_run] example_run by blast

section \<open>The format classifier is total on the URLs that parse\<close>

lemma classify_range:
  "classify ext content_type = ''.jpg'' \<or> classify ext content_type = ''.png''
   \<or> classify ext content_type = ''.webp''"
  by (auto simp: classify_def CONTENT_TYPE_TO_EXTENSION_def split: option.splits if_splits)

lemma detect_extension_classify:
  "detect_extension ok img_url content_type
     = (case urlparse_path ok img_url of
          Inl e \<Rightarrow> Inl e
        | Inr p \<Rightarrow> Inr (classify (lower (splitext_ext p)) content_type))"
  by (auto simp: detect_extension_def classify_def ALLOWED_EXTENSIONS_def Let_def
      split: sum.splits)

lemma set_split_scheme: "set (snd (split_scheme url)) \<subseteq> set url"
  by (auto simp: split_scheme_def Let_def dest: in_set_dropD)

lemma urlsplit_plain:
  assumes "CHR ''['' \<notin> set url" and "CHR '']'' \<notin> set url" and "\<not> list_ex non_ascii url"
  shows "\<exists>res. urlsplit ok url = Inr res"
proof -
  let ?url1 = "filter (\<lambda>c. c \<noteq> CHR 0x09 \<and> c \<noteq> CHR 0x0D \<and> c \<noteq> CHR 0x0A)
                 (dropWhile (\<lambda>c. (of_char c :: nat) \<le> 32) url)"
  let ?url2 = "snd (split_scheme ?url1)"
  let ?netloc = "takeWhile (\<lambda>c. \<not> netloc_delim c) (drop 2 ?url2)"
  have "set ?url1 \<subseteq> set url"
    by (auto dest: set_dropWhileD)
  then have "set ?url2 \<subseteq> set url"
    using set_split_scheme [of ?url1] by blast
  then have sub: "set ?netloc \<subseteq> set url"
    by (auto dest!: set_takeWhileD in_set_dropD)
  with assms(1,2) have "CHR ''['' \<notin> set ?netloc" "CHR '']'' \<notin> set ?netloc"
    by blast+
  moreover from sub assms(3) have "\<not> list_ex non_ascii ?netloc"
    by (auto simp: list_ex_iff)
  ultimately show ?thesis
    by (simp add: urlsplit_def Let_def)
qed

lemma urlparse_path_plain:
  assumes "CHR ''['' \<notin> set url" and "CHR '']'' \<notin> set url" and "\<not> list_ex non_ascii url"
  shows "\<exists>p. urlparse_path ok url = Inr p"
  using urlsplit_plain [OF assms, of ok]
  by (auto simp: urlparse_path_def split: prod.splits)

text \<open>
  Claim C7, as it is stated, fails: \<open>_detect_extension\<close> is not total. On a URL whose
  network location has an opening square bracket and no closing one, \<open>urlparse\<close> raises
  \<open>ValueError\<close>, and so does \<open>_detect_extension\<close>.
\<close>

theorem detect_extension_raises:
  "detect_extension (\<lambda>n. True) ''http://[/a.png'' ''image/png''
     = Inl (ValueError ''Invalid IPv6 URL'')"
  by code_simp

text \<open>
  Claim C7, amended. \<open>_detect_extension\<close> raises exactly when \<open>urlparse\<close> raises on the URL,
  with the same error. On every pair of a URL on which \<open>urlparse\<close> returns and a content
  type, it returns the classification of the specification, which is one of \<open>.jpg\<close>,
  \<open>.png\<close> and \<open>.webp\<close>. \<open>urlparse\<close> returns on every URL in ASCII without square brackets,
  whatever the two checks of the library accept.
\<close>

theorem detect_extension_total_on_parsed:
  "(detect_extension ok img_url content_type = Inl e) = (urlparse_path ok img_url = Inl e)
   \<and> (urlparse_path ok img_url = Inr p \<longrightarrow>
        detect_extension ok img_url content_type
          = Inr (classify (lower (splitext_ext p)) content_type)
        \<and> classify (lower (splitext_ext p)) content_type \<in> {''.jpg'', ''.png'', ''.webp''})
   \<and> (CHR ''['' \<notin> set img_url \<and> CHR '']'' \<notin> set img_url
        \<and> list_all (\<lambda>c. (of_char c :: nat) \<le> 127) img_url \<longrightarrow>
        (\<exists>ext. detect_extension ok img_url content_type = Inr ext
               \<and> ext \<in> {''.jpg'', ''.png'', ''.webp''}))"
proof (intro conjI impI)
  show "(detect_extension ok img_url content_type = Inl e) = (urlparse_path ok img_url = Inl e)"
    by (simp add: detect_extension_classify split: sum.splits)
next
  assume "urlparse_path ok img_url = Inr p"
  then show "detect_extension ok img_url content_type
          = Inr (classify (lower (splitext_ext p)) content_type)"
    by (simp add: detect_extension_classify)
next
  show "classify (lower (splitext_ext p)) content_type \<in> {''.jpg'', ''.png'', ''.webp''}"
    using classify_range [of "lower (splitext_ext p)" content_type] by blast
next
  assume a: "CHR ''['' \<notin> set img_url \<and> CHR '']'' \<notin> set img_url
        \<and> list_all (\<lambda>c. (of_char c :: nat) \<le> 127) img_url"
  then have "\<not> list_ex non_ascii img_url"
    by (auto simp: list_ex_iff list_all_iff non_ascii_def)
  with a obtain q where "urlparse_path ok img_url = Inr q"
    using urlparse_path_plain [of img_url ok] by blast
  then have "detect_extension ok img_url content_type
          = Inr (classify (lower (splitext_ext q)) content_type)"
    by (simp add: detect_extension_classify)
  then show "\<exists>ext. detect_extension ok img_url content_type = Inr ext
               \<and> ext \<in> {''.jpg'', ''.png'', ''.webp''}"
    using classify_range [of "lower (splitext_ext q)" content_type] by auto
qed

text \<open>An instance in which the library accepts nothing that it checks: the URL is plain,
  so it parses all the same.\<close>

theorem detect_extension_total_on_parsed_witness:
  "urlparse_path (\<lambda>n. False) ''http://cdn/a/001.JPEG?x=1'' = Inr ''/a/001.JPEG''
   \<and> detect_extension (\<lambda>n. False) ''http://cdn/a/001.JPEG?x=1'' ''image/png''
       = Inr (classify (lower (splitext_ext ''/a/001.JPEG'')) ''image/png'')
   \<and> classify (lower (splitext_ext ''/a/001.JPEG'')) ''image/png'' = ''.jpg''
   \<and> CHR ''['' \<notin> set ''http://cdn/a/001.JPEG?x=1''
   \<and> CHR '']'' \<notin> set ''http://cdn/a/001.JPEG?x=1''
   \<and> list_all (\<lambda>c. (of_char c :: nat) \<le> 127) ''http://cdn/a/001.JPEG?x=1''
   \<and> (\<exists>ext. detect_extension (\<lambda>n. False) ''http://cdn/a/001.JPEG?x=1'' ''image/png'' = Inr ext
            \<and> ext \<in> {''.jpg'', ''.png'', ''.webp''})"
proof -
  have p: "urlparse_path (\<lambda>n. False) ''http://cdn/a/001.JPEG?x=1'' = Inr ''/a/001.JPEG''"
    by code_simp
  have c: "classify (lower (splitext_ext ''/a/001.JPEG'')) ''image/png'' = ''.jpg''"
    by code_simp
  have b: "CHR ''['' \<notin> set ''http://cdn/a/001.JPEG?x=1''
           \<and> CHR '']'' \<notin> set ''http://cdn/a/001.JPEG?x=1''
           \<and> list_all (\<lambda>c. (of_char c :: nat) \<le> 127) ''http://cdn/a/001.JPEG?x=1''"
    by simp
  note t = detect_extension_total_on_parsed
    [of "\<lambda>n. False" "''http://cdn/a/001.JPEG?x=1''" "''image/png''" _ "''/a/001.JPEG''"]
  from t p b c show ?thesis by blast
qed

section \<open>The descriptors\<close>

subsection \<open>Matches in the order of the source\<close>

lemma finditer_findall: "map snd (finditer_from pos k s) = findall_from k s"
  by (induction pos k s rule: finditer_from.induct) (auto split: option.splits)

lemma finditer_positions_from:
  "q \<in> set (map fst (finditer_from pos k s)) \<Longrightarrow> pos + k \<le> q"
proof (induction pos k s rule: finditer_from.induct)
  case (1 pos k)
  then show ?case by simp
next
  case (2 pos k c cs)
  then show ?case by simp
next
  case (3 pos c cs)
  show ?case
  proof (cases "match_image_at (c # cs)")
    case None
    with 3(1) 3(3) show ?thesis by simp
  next
    case (Some m)
    obtain g n where m: "m = (g, n)" by (cases m) auto
    from 3(3) have "q = pos \<or> q \<in> set (map fst (finditer_from (Suc pos) (n - 1) cs))"
      by (simp add: Some m)
    then show ?thesis
    proof
      assume "q = pos"
      then show ?thesis by simp
    next
      assume "q \<in> set (map fst (finditer_from (Suc pos) (n - 1) cs))"
      from 3(2) [OF Some m [symmetric] this] show ?thesis by simp
    qed
  qed
qed

lemma finditer_positions_ascending: "sorted_wrt (<) (map fst (finditer_from pos k s))"
proof (induction pos k s rule: finditer_from.induct)
  case (1 pos k)
  show ?case by simp
next
  case (2 pos k c cs)
  then show ?case by simp
next
  case (3 pos c cs)
  show ?case
  proof (cases "match_image_at (c # cs)")
    case None
    with 3 show ?thesis by simp
  next
    case (Some m)
    obtain g n where m: "m = (g, n)" by (cases m) auto
    have "\<forall>q \<in> set (map fst (finditer_from (Suc pos) (n - 1) cs)). pos < q"
      using finditer_positions_from [of _ "Suc pos" "n - 1" cs] by fastforce
    with 3(2) [OF Some m [symmetric]] show ?thesis
      by (simp add: Some m)
  qed
qed

lemma finditer_is_match:
  "(q, g) \<in> set (finditer_from pos k s) \<Longrightarrow>
     \<exists>n. match_image_at (drop (q - pos) s) = Some (g, n)"
proof (induction pos k s rule: finditer_from.induct)
  case (1 pos k)
  then show ?case by simp
next
  case (2 pos k c cs)
  then have mem: "(q, g) \<in> set (finditer_from (Suc pos) k cs)" by simp
  then have "Suc pos \<le> q"
    using finditer_positions_from [of q "Suc pos" k cs] by force
  then have "q - pos = Suc (q - Suc pos)" by simp
  with 2(1) [OF mem] show ?case by simp
next
  case (3 pos c cs)
  show ?case
  proof (cases "match_image_at (c # cs)")
    case None
    with 3(3) have mem: "(q, g) \<in> set (finditer_from (Suc pos) 0 cs)" by simp
    then have "Suc pos \<le> q"
      using finditer_positions_from [of q "Suc pos" 0 cs] by force
    then have "q - pos = Suc (q - Suc pos)" by simp
    with 3(1) [OF None mem] show ?thesis by simp
  next
    case (Some m)
    obtain g' n where m: "m = (g', n)" by (cases m) auto
    from 3(3) have "(q, g) = (pos, g') \<or> (q, g) \<in> set (finditer_from (Suc pos) (n - 1) cs)"
      by (simp add: Some m)
    then show ?thesis
    proof
      assume "(q, g) = (pos, g')"
      then show ?thesis by (simp add: Some m)
    next
      assume mem: "(q, g) \<in> set (finditer_from (Suc pos) (n - 1) cs)"
      then have "Suc pos \<le> q"
        using finditer_positions_from [of q "Suc pos" "n - 1" cs] by force
      then have "q - pos = Suc (q - Suc pos)" by simp
      with 3(2) [OF Some m [symmetric] mem] show ?thesis by simp
    qed
  qed
qed

subsection \<open>Entries of the page array\<close>

lemma after_prefix_append: "after_prefix p (p @ s) = Some s"
  by (induction p) auto

lemma match_scheme_http: "match_scheme (''http://'' @ t) = Some (''http://'', t)"
  by (simp add: match_scheme_def)

lemma match_scheme_https: "match_scheme (''https://'' @ t) = Some (''https://'', t)"
  by (simp add: match_scheme_def)

lemma takeWhile_stop: "x \<notin> set xs \<Longrightarrow> takeWhile (\<lambda>c. c \<noteq> x) (xs @ x # t) = xs"
  by (induction xs) auto

lemma dropWhile_stop: "x \<notin> set xs \<Longrightarrow> dropWhile (\<lambda>c. c \<noteq> x) (xs @ x # t) = x # t"
  by (induction xs) auto

lemma match_image_at_tail:
  assumes rest: "rest \<noteq> []" "sq \<notin> set rest"
    and scheme: "match_scheme (scheme @ rest @ sq # CHR '','' # sq # sq # CHR '','' # dq # path @ dq # t)
                   = Some (scheme, rest @ sq # CHR '','' # sq # sq # CHR '','' # dq # path @ dq # t)"
    and path: "path \<noteq> []" "dq \<notin> set path"
  shows "match_image_at (entry_text (scheme @ rest) path @ t)
           = Some ((scheme @ rest, path), length (entry_text (scheme @ rest) path))"
  using rest path
  by (simp add: match_image_at_def entry_text_def scheme takeWhile_stop dropWhile_stop Let_def)

lemma match_image_at_entry:
  assumes "valid_base base" and "valid_path path"
  shows "match_image_at (entry_text base path @ t)
           = Some ((base, path), length (entry_text base path))"
proof -
  from assms(1) obtain rest where rest: "rest \<noteq> []" "sq \<notin> set rest"
    and base: "base = ''http://'' @ rest \<or> base = ''https://'' @ rest"
    by (auto simp: valid_base_def)
  from assms(2) have path: "path \<noteq> []" "dq \<notin> set path"
    by (auto simp: valid_path_def)
  from base show ?thesis
  proof
    assume b: "base = ''http://'' @ rest"
    show ?thesis
      unfolding b by (rule match_image_at_tail [OF rest _ path]) (rule match_scheme_http)
  next
    assume b: "base = ''https://'' @ rest"
    show ?thesis
      unfolding b by (rule match_image_at_tail [OF rest _ path]) (rule match_scheme_https)
  qed
qed

lemma findall_skip: "findall_from (length xs) (xs @ t) = findall_from 0 t"
  by (induction xs) auto

lemma findall_entry:
  assumes "valid_base base" and "valid_path path"
  shows "findall_from 0 (entry_text base path @ t) = (base, path) # findall_from 0 t"
proof -
  obtain c cs where e: "entry_text base path = c # cs"
    by (simp add: entry_text_def)
  have "findall_from 0 (c # cs @ t) = (base, path) # findall_from (length cs) (cs @ t)"
    using match_image_at_entry [OF assms, of t] by (simp add: e)
  then show ?thesis
    by (simp add: e findall_skip)
qed

lemma match_image_at_other: "c \<noteq> CHR ''['' \<Longrightarrow> match_image_at (c # cs) = None"
  by (simp add: match_image_at_def)

lemma findall_filler: "CHR ''['' \<notin> set filler \<Longrightarrow> findall_from 0 (filler @ t) = findall_from 0 t"
  by (induction filler) (auto simp: match_image_at_other)

lemma findall_entries:
  "list_all valid_entry es \<Longrightarrow>
     findall_from 0 (entries_text es @ t) = map (\<lambda>e. (fst e, fst (snd e))) es @ findall_from 0 t"
proof (induction es)
  case Nil
  show ?case by simp
next
  case (Cons e es)
  obtain base path filler where e: "e = (base, path, filler)"
    by (cases e) auto
  from Cons.prems have ve: "valid_entry e" and rest: "list_all valid_entry es"
    by simp_all
  from ve have v: "valid_base base" "valid_path path" "CHR ''['' \<notin> set filler"
    by (simp_all add: e valid_entry_def)
  have "findall_from 0 (entry_text base path @ filler @ entries_text es @ t)
          = (base, path) # findall_from 0 (filler @ entries_text es @ t)"
    by (rule findall_entry [OF v(1,2)])
  also have "findall_from 0 (filler @ entries_text es @ t) = findall_from 0 (entries_text es @ t)"
    by (rule findall_filler [OF v(3)])
  finally show ?case
    by (simp add: e Cons.IH [OF rest])
qed

lemma findall_page_array:
  assumes "list_all valid_entry es"
  shows "re_findall_images (''['' @ entries_text es @ '']'') = map (\<lambda>e. (fst e, fst (snd e))) es"
proof -
  have "match_image_at (CHR ''['' # entries_text es @ '']'') = None"
    by (cases es rule: entries_text.cases) (simp_all add: match_image_at_def entry_text_def sq_def)
  then have "findall_from 0 (''['' @ entries_text es @ '']'') = findall_from 0 (entries_text es @ '']'')"
    by simp
  also have "\<dots> = map (\<lambda>e. (fst e, fst (snd e))) es @ findall_from 0 '']''"
    by (rule findall_entries [OF assms])
  also have "findall_from 0 '']'' = []"
    by (simp add: match_image_at_def)
  finally show ?thesis
    by (simp add: re_findall_images_def)
qed

subsection \<open>Indices\<close>

lemma descriptors_zip: "descriptors images = zip [1..<Suc (length images)] images"
  by (simp add: descriptors_def enumerate_eq_zip)

lemma descriptors_indices: "map fst (descriptors images) = [1..<Suc (length images)]"
  by (simp add: descriptors_def)

text \<open>When the extraction succeeds, the descriptors are the matches of the entry
  expression in the text that the first expression has found, in the order of their
  positions, numbered from 1 without a gap.\<close>

lemma matches_in_source_order:
  assumes "extract_images html = Inr images"
  shows "\<exists>data. re_search_reader html = Some data
            \<and> images = map snd (finditer_from 0 0 data)
            \<and> sorted_wrt (<) (map fst (finditer_from 0 0 data))
            \<and> (\<forall>m \<in> set (finditer_from 0 0 data).
                  \<exists>n. match_image_at (drop (fst m) data) = Some (snd m, n))"
    and "descriptors images = zip [1..<Suc (length images)] images"
proof -
  from assms obtain data where data: "re_search_reader html = Some data"
    and images: "images = re_findall_images data"
    by (auto simp: extract_images_def Let_def split: option.splits if_splits)
  have "images = map snd (finditer_from 0 0 data)"
    by (simp add: images re_findall_images_def finditer_findall)
  moreover have "sorted_wrt (<) (map fst (finditer_from 0 0 data))"
    by (rule finditer_positions_ascending)
  moreover have "\<forall>m \<in> set (finditer_from 0 0 data).
                  \<exists>n. match_image_at (drop (fst m) data) = Some (snd m, n)"
    using finditer_is_match [of _ _ 0 0 data] by auto
  ultimately show "\<exists>data. re_search_reader html = Some data
            \<and> images = map snd (finditer_from 0 0 data)
            \<and> sorted_wrt (<) (map fst (finditer_from 0 0 data))
            \<and> (\<forall>m \<in> set (finditer_from 0 0 data).
                  \<exists>n. match_image_at (drop (fst m) data) = Some (snd m, n))"
    using data by blast
  show "descriptors images = zip [1..<Suc (length images)] images"
    by (rule descriptors_zip)
qed

subsection \<open>The page array in the page\<close>

lemma after_prefix_None: "(after_prefix p s = None) = (\<not> startswith s p)"
  by (induction p s rule: after_prefix.induct) auto

lemma list_all_upt: "list_all P [0..<n] = (\<forall>k<n. P k)"
  by (auto simp: list_all_iff)

lemma match_reader_at_other:
  "\<not> startswith s ''rm_h.readerInit('' \<Longrightarrow> match_reader_at s = None"
  using after_prefix_None [of "''rm_h.readerInit(''" s]
  by (simp add: match_reader_at_def)

lemma re_search_skip:
  "\<forall>k<length pre. \<not> startswith (drop k (pre @ t)) ''rm_h.readerInit(''
     \<Longrightarrow> re_search_reader (pre @ t) = re_search_reader t"
proof (induction pre)
  case Nil
  show ?case by simp
next
  case (Cons c cs)
  from Cons.prems have "\<not> startswith (drop 0 ((c # cs) @ t)) ''rm_h.readerInit(''"
    by (intro Cons.prems [rule_format]) simp
  then have "match_reader_at (c # cs @ t) = None"
    by (intro match_reader_at_other) simp
  moreover have "\<forall>k<length cs. \<not> startswith (drop k (cs @ t)) ''rm_h.readerInit(''"
  proof (intro allI impI)
    fix k assume "k < length cs"
    then have "Suc k < length (c # cs)" by simp
    from Cons.prems [rule_format, OF this]
    show "\<not> startswith (drop k (cs @ t)) ''rm_h.readerInit(''" by simp
  qed
  ultimately show ?case
    by (simp add: Cons.IH)
qed

lemma lazy_to_close_first:
  "\<not> occurs '']]'' (s @ '']'') \<Longrightarrow> lazy_to_close (s @ '']]'' @ post) = Some (s @ '']]'')"
proof (induction s)
  case Nil
  show ?case by simp
next
  case (Cons c cs)
  from Cons.prems have rest: "\<not> occurs '']]'' (cs @ '']'')"
    by simp
  from Cons.prems have "\<not> startswith (c # cs @ '']]'' @ post) '']]''"
    by (cases cs) auto
  with Cons.IH [OF rest] show ?case
    by simp
qed

lemma entries_text_head: "es \<noteq> [] \<Longrightarrow> \<exists>b. entries_text es = CHR ''['' # sq # b"
  by (cases es rule: entries_text.cases) (simp_all add: entry_text_def)

lemma dropWhile_isspace_bracket:
  "list_all isspace ws \<Longrightarrow> dropWhile isspace (ws @ CHR ''['' # t) = CHR ''['' # t"
  by (induction ws) (simp_all add: isspace_def)

lemma match_reader_at_call:
  assumes arg: "arg \<noteq> []" "CHR '','' \<notin> set arg"
    and ws: "list_all isspace ws"
    and es: "es \<noteq> []"
    and close: "last (entries_text es) = CHR '']''" "\<not> occurs '']]'' (entries_text es)"
  shows "match_reader_at (''rm_h.readerInit('' @ arg @ '','' @ ws @ ''['' @ entries_text es
                            @ '']'' @ post)
           = Some (''['' @ entries_text es @ '']'')"
proof -
  from entries_text_head [OF es] obtain b where b: "entries_text es = CHR ''['' # sq # b"
    by blast
  have "sq # b \<noteq> []" by simp
  moreover from close(1) have "last (sq # b) = CHR '']''"
    by (simp add: b split: if_splits)
  ultimately have "sq # b = butlast (sq # b) @ '']''"
    by (metis append_butlast_last_id)
  then obtain s where s: "sq # b = s @ '']''"
    by blast
  have body: "entries_text es = CHR ''['' # s @ '']''"
    by (simp add: b s)
  from close(2) have "\<not> occurs '']]'' (s @ '']'')"
    by (simp add: body)
  then have lazy: "lazy_to_close (s @ '']]'' @ post) = Some (s @ '']]'')"
    by (rule lazy_to_close_first)
  have p: "after_prefix ''rm_h.readerInit(''
             (''rm_h.readerInit('' @ arg @ '','' @ ws @ ''['' @ entries_text es @ '']'' @ post)
           = Some (arg @ '','' @ ws @ ''['' @ entries_text es @ '']'' @ post)"
    by (rule after_prefix_append)
  have t: "takeWhile (\<lambda>c. c \<noteq> CHR '','') (arg @ CHR '','' # ws @ ''['' @ entries_text es @ '']'' @ post)
             = arg"
    by (rule takeWhile_stop [OF arg(2)])
  have d: "dropWhile (\<lambda>c. c \<noteq> CHR '','') (arg @ CHR '','' # ws @ ''['' @ entries_text es @ '']'' @ post)
             = CHR '','' # ws @ ''['' @ entries_text es @ '']'' @ post"
    by (rule dropWhile_stop [OF arg(2)])
  have w: "dropWhile isspace (ws @ CHR ''['' # entries_text es @ '']'' @ post)
             = CHR ''['' # entries_text es @ '']'' @ post"
    by (rule dropWhile_isspace_bracket [OF ws])
  have "match_reader_at (''rm_h.readerInit('' @ arg @ '','' @ ws @ ''['' @ entries_text es
                            @ '']'' @ post)
          = map_option ((@) ''[['') (lazy_to_close (s @ '']]'' @ post))"
    unfolding match_reader_at_def p
    using arg(1) t d w by (simp add: body)
  with lazy show ?thesis
    by (simp add: body)
qed

text \<open>
  Claim C8, as it is stated, fails. The page below has an array of three well-formed
  entries, and the entry expression recognises the three in the page; the path of the
  second contains two closing brackets, where the first expression ends the array, and the
  extraction yields one descriptor. With the brackets in the path of the first entry it
  raises.
\<close>

theorem bracket_pair_cuts_page_array:
  "list_all valid_entry bracket_entries
   \<and> length bracket_entries = 3
   \<and> re_findall_images bracket_page = map (\<lambda>e. (fst e, fst (snd e))) bracket_entries
   \<and> extract_images bracket_page = Inr [(''http://cdn/a'', ''p1.jpg'')]
   \<and> descriptors [(''http://cdn/a'', ''p1.jpg'')] = [(1, ''http://cdn/a'', ''p1.jpg'')]
   \<and> list_all valid_entry bracket_first_entries
   \<and> extract_images bracket_first_page = Inl (ValueError msg_no_links)"
proof -
  have a: "valid_base ''http://cdn/a''"
    unfolding valid_base_def by (rule exI [of _ "''cdn/a''"]) (simp add: sq_def)
  have b: "valid_base ''http://cdn/b''"
    unfolding valid_base_def by (rule exI [of _ "''cdn/b''"]) (simp add: sq_def)
  have c: "valid_base ''http://cdn/c''"
    unfolding valid_base_def by (rule exI [of _ "''cdn/c''"]) (simp add: sq_def)
  have v: "list_all valid_entry bracket_entries"
    using a b c by (simp add: bracket_entries_def valid_entry_def valid_path_def dq_def)
  have v1: "list_all valid_entry bracket_first_entries"
    using a b c by (simp add: bracket_first_entries_def valid_entry_def valid_path_def dq_def)
  have n: "length bracket_entries = 3"
    by (simp add: bracket_entries_def)
  have f: "re_findall_images bracket_page = map (\<lambda>e. (fst e, fst (snd e))) bracket_entries"
    by code_simp
  have e: "extract_images bracket_page = Inr [(''http://cdn/a'', ''p1.jpg'')]"
    by code_simp
  have d: "descriptors [(''http://cdn/a'', ''p1.jpg'')] = [(1, ''http://cdn/a'', ''p1.jpg'')]"
    by (simp add: descriptors_def)
  have e1: "extract_images bracket_first_page = Inl (ValueError msg_no_links)"
    by code_simp
  show ?thesis
    by (intro conjI v n f e d v1 e1)
qed

text \<open>
  Claim C8, amended. Let the first call \<open>rm_h.readerInit(\<close> of the page have a first
  argument and, after the comma and white space, an array of \<open>K \<ge> 1\<close> well-formed entries
  (a base that starts with \<open>http://\<close> or \<open>https://\<close> between single quotes, an empty string,
  a path between double quotes, each entry followed by text without an opening bracket)
  that ends with the closing bracket of its last entry and in which two closing brackets
  in a row occur nowhere else. Then the extraction yields exactly \<open>K\<close> descriptors, those of
  the entries in the order of the page, with the indices 1 to \<open>K\<close>.
\<close>

theorem page_array_descriptors:
  assumes page: "html = pre @ ''rm_h.readerInit('' @ arg @ '','' @ ws @ ''[''
                          @ entries_text es @ '']'' @ post"
    and first: "\<forall>k<length pre. \<not> startswith (drop k html) ''rm_h.readerInit(''"
    and arg: "arg \<noteq> []" "CHR '','' \<notin> set arg"
    and ws: "list_all isspace ws"
    and es: "es \<noteq> []" "list_all valid_entry es"
    and close: "last (entries_text es) = CHR '']''" "\<not> occurs '']]'' (entries_text es)"
  shows "\<exists>images. extract_images html = Inr images
           \<and> images = map (\<lambda>e. (fst e, fst (snd e))) es
           \<and> length (descriptors images) = length es
           \<and> map fst (descriptors images) = [1..<Suc (length es)]
           \<and> map snd (descriptors images) = map (\<lambda>e. (fst e, fst (snd e))) es"
proof -
  let ?call = "''rm_h.readerInit('' @ arg @ '','' @ ws @ ''['' @ entries_text es @ '']'' @ post"
  let ?images = "map (\<lambda>e. (fst e, fst (snd e))) es"
  from first have "re_search_reader (pre @ ?call) = re_search_reader ?call"
    unfolding page by (rule re_search_skip)
  moreover have "match_reader_at ?call = Some (''['' @ entries_text es @ '']'')"
    by (rule match_reader_at_call [OF arg ws es(1) close])
  then have "re_search_reader ?call = Some (''['' @ entries_text es @ '']'')"
    by simp
  ultimately have data: "re_search_reader html = Some (''['' @ entries_text es @ '']'')"
    by (simp add: page)
  have "re_findall_images (''['' @ entries_text es @ '']'') = ?images"
    by (rule findall_page_array [OF es(2)])
  with data es(1) have "extract_images html = Inr ?images"
    by (simp add: extract_images_def Let_def)
  moreover have "length (descriptors ?images) = length es"
    by (simp add: descriptors_def)
  moreover have "map fst (descriptors ?images) = [1..<Suc (length es)]"
    by (simp add: descriptors_indices)
  moreover have "map snd (descriptors ?images) = ?images"
    by (simp add: descriptors_def)
  ultimately show ?thesis
    by blast
qed

text \<open>The page of the example: two entries, two descriptors.\<close>

theorem page_array_descriptors_witness:
  "example_page = ''<script>'' @ ''rm_h.readerInit('' @ '' 0'' @ '','' @ '' '' @ ''[''
                    @ entries_text example_entries @ '']'' @ '', false);</script>''
   \<and> list_all (\<lambda>k. \<not> startswith (drop k example_page) ''rm_h.readerInit('')
         [0..<length ''<script>'']
   \<and> list_all isspace '' ''
   \<and> list_all valid_entry example_entries
   \<and> last (entries_text example_entries) = CHR '']''
   \<and> \<not> occurs '']]'' (entries_text example_entries)
   \<and> extract_images example_page
       = Inr [(''http://cdn/a'', ''p1.jpg''), (''http://cdn/b'', ''p2.jpg'')]
   \<and> descriptors [(''http://cdn/a'', ''p1.jpg''), (''http://cdn/b'', ''p2.jpg'')]
       = [(1, ''http://cdn/a'', ''p1.jpg''), (2, ''http://cdn/b'', ''p2.jpg'')]"
proof -
  have page: "example_page = ''<script>'' @ ''rm_h.readerInit('' @ '' 0'' @ '','' @ '' '' @ ''[''
                    @ entries_text example_entries @ '']'' @ '', false);</script>''"
    by (rule example_page_def)
  have scan: "list_all (\<lambda>k. \<not> startswith (drop k example_page) ''rm_h.readerInit('')
          [0..<length ''<script>'']"
    by code_simp
  then have first: "\<forall>k<length ''<script>''. \<not> startswith (drop k example_page) ''rm_h.readerInit(''"
    by (rule list_all_upt [THEN iffD1])
  have arg: "'' 0'' \<noteq> []" "CHR '','' \<notin> set '' 0''"
    by simp_all
  have ws: "list_all isspace '' ''"
    by (simp add: isspace_def)
  have a: "valid_base ''http://cdn/a''"
    unfolding valid_base_def by (rule exI [of _ "''cdn/a''"]) (simp add: sq_def)
  have b: "valid_base ''http://cdn/b''"
    unfolding valid_base_def by (rule exI [of _ "''cdn/b''"]) (simp add: sq_def)
  have ne: "example_entries \<noteq> []"
    by (simp add: example_entries_def)
  have v: "list_all valid_entry example_entries"
    using a b by (simp add: example_entries_def valid_entry_def valid_path_def dq_def)
  have l: "last (entries_text example_entries) = CHR '']''"
    by code_simp
  have o: "\<not> occurs '']]'' (entries_text example_entries)"
    by code_simp
  have m: "map (\<lambda>e. (fst e, fst (snd e))) example_entries
             = [(''http://cdn/a'', ''p1.jpg''), (''http://cdn/b'', ''p2.jpg'')]"
    by (simp add: example_entries_def)
  from page_array_descriptors [OF page first arg ws ne v l o]
  have e: "extract_images example_page
       = Inr [(''http://cdn/a'', ''p1.jpg''), (''http://cdn/b'', ''p2.jpg'')]"
    unfolding m by blast
  have d: "descriptors [(''http://cdn/a'', ''p1.jpg''), (''http://cdn/b'', ''p2.jpg'')]
       = [(1, ''http://cdn/a'', ''p1.jpg''), (2, ''http://cdn/b'', ''p2.jpg'')]"
    by (simp add: descriptors_def)
  show ?thesis
    by (intro conjI page scan ws v l o e d)
qed

end
